theory Spec2Isabelle
  imports Main "HOL-Library.Word" "HOL-Library.Sublist"
begin

unbundle bit_operations_syntax

section \<open>Packet buffers (ReadOnlyPacket.cpp)\<close>

type_synonym u8 = "8 word"
type_synonym u16 = "16 word"
type_synonym u32 = "32 word"

text \<open>
  A packet is a cursor over a byte array: \<open>mPosition\<close> and \<open>mSize\<close> are
  \<open>uint32_t\<close>, \<open>mData\<close> points into the shared storage. The storage is modelled
  by the list of bytes that starts at the pointer. \<open>MAX_PACKET_SIZE\<close> comes
  from Constants.h, which is not among the sources, so every operation that
  compares with it takes it as its first argument \<open>mx\<close>.
\<close>

record ReadOnlyPacket =
  mPosition :: u32
  mSize :: u32
  mData :: "u8 list"

datatype exn = PacketException

definition Seek :: "u32 \<Rightarrow> ReadOnlyPacket \<Rightarrow> u32 \<Rightarrow> exn + ReadOnlyPacket" where
  "Seek mx p pos =
     (if mx < pos then Inl PacketException
      else Inr (p\<lparr>mPosition := pos\<rparr>))"

definition Skip :: "u32 \<Rightarrow> ReadOnlyPacket \<Rightarrow> u32 \<Rightarrow> exn + ReadOnlyPacket" where
  "Skip mx p sz =
     (if sz = 0 then Inr p
      else if mx < mPosition p + sz then Inl PacketException
      else Inr (p\<lparr>mPosition := mPosition p + sz\<rparr>))"

text \<open>\<open>Rewind()\<close> without an argument returns to the start.\<close>

definition Rewind0 :: "ReadOnlyPacket \<Rightarrow> ReadOnlyPacket" where
  "Rewind0 p = p\<lparr>mPosition := 0\<rparr>"

definition Rewind :: "ReadOnlyPacket \<Rightarrow> u32 \<Rightarrow> exn + ReadOnlyPacket" where
  "Rewind p bytes =
     (if bytes = 0 then Inr p
      else if bytes > mPosition p then Inl PacketException
      else Inr (p\<lparr>mPosition := mPosition p - bytes\<rparr>))"

definition Tell :: "ReadOnlyPacket \<Rightarrow> u32" where
  "Tell p = mPosition p"

definition Left :: "ReadOnlyPacket \<Rightarrow> u32" where
  "Left p = mSize p - mPosition p"

definition Size :: "ReadOnlyPacket \<Rightarrow> u32" where
  "Size p = mSize p"

subsection \<open>Reads\<close>

text \<open>
  The byte at offset \<open>i\<close> of the storage. The storage of a packet is an array
  of \<open>MAX_PACKET_SIZE\<close> bytes; an offset outside the listed bytes reads 0 in
  the model (no operation below reads there once the size check has passed on
  a packet whose size is at most the length of the list).
\<close>

definition byte_at :: "ReadOnlyPacket \<Rightarrow> u32 \<Rightarrow> u8" where
  "byte_at p i = (if unat i < length (mData p) then mData p ! unat i else 0)"

definition le16 :: "u8 \<Rightarrow> u8 \<Rightarrow> u16" where
  "le16 b0 b1 = push_bit 8 (ucast b1) OR ucast b0"

definition be32 :: "u8 \<Rightarrow> u8 \<Rightarrow> u8 \<Rightarrow> u8 \<Rightarrow> u32" where
  "be32 b0 b1 b2 b3 =
     push_bit 24 (ucast b0) OR push_bit 16 (ucast b1) OR push_bit 8 (ucast b2) OR ucast b3"

text \<open>
  \<open>ReadU16Little\<close> is \<open>le16toh(ReadU16())\<close>: the two bytes at the cursor, the
  low byte first, whatever the byte order of the host.
\<close>

definition ReadU16Little :: "u32 \<Rightarrow> ReadOnlyPacket \<Rightarrow> exn + (u16 \<times> ReadOnlyPacket)" where
  "ReadU16Little mx p =
     (if mPosition p + 2 > mSize p then Inl PacketException
      else case Skip mx p 2 of
             Inl e \<Rightarrow> Inl e
           | Inr q \<Rightarrow> Inr (le16 (byte_at p (mPosition p)) (byte_at p (mPosition p + 1)), q))"

definition PeekU32Big :: "ReadOnlyPacket \<Rightarrow> exn + u32" where
  "PeekU32Big p =
     (if mPosition p + 4 > mSize p then Inl PacketException
      else Inr (be32 (byte_at p (mPosition p)) (byte_at p (mPosition p + 1))
                     (byte_at p (mPosition p + 2)) (byte_at p (mPosition p + 3))))"

definition ReadU32Big :: "u32 \<Rightarrow> ReadOnlyPacket \<Rightarrow> exn + (u32 \<times> ReadOnlyPacket)" where
  "ReadU32Big mx p =
     (if mPosition p + 4 > mSize p then Inl PacketException
      else case Skip mx p 4 of
             Inl e \<Rightarrow> Inl e
           | Inr q \<Rightarrow> Inr (be32 (byte_at p (mPosition p)) (byte_at p (mPosition p + 1))
                               (byte_at p (mPosition p + 2)) (byte_at p (mPosition p + 3)), q))"

definition ReadArray :: "u32 \<Rightarrow> ReadOnlyPacket \<Rightarrow> u32 \<Rightarrow> exn + (u8 list \<times> ReadOnlyPacket)" where
  "ReadArray mx p sz =
     (if sz = 0 then Inr ([], p)
      else if mPosition p + sz > mSize p then Inl PacketException
      else case Skip mx p sz of
             Inl e \<Rightarrow> Inl e
           | Inr q \<Rightarrow> Inr (map (\<lambda>k. byte_at p (mPosition p + of_nat k)) [0 ..< unat sz], q))"

text \<open>
  \<open>ReadString32Big(encoding, trimNull)\<close>; the conversion from the encoding
  (\<open>Convert::FromEncoding\<close>, not among the sources) is the argument \<open>dec\<close>.
  The handshake calls it without \<open>trimNull\<close>; its default is in
  ReadOnlyPacket.h, which is not among the sources, and is taken to be false.
\<close>

definition ReadString32Big ::
  "u32 \<Rightarrow> (u8 list \<Rightarrow> u8 list) \<Rightarrow> bool \<Rightarrow> ReadOnlyPacket \<Rightarrow> exn + (u8 list \<times> ReadOnlyPacket)" where
  "ReadString32Big mx dec trimNull p =
     (case ReadU32Big mx p of
        Inl e \<Rightarrow> Inl e
      | Inr (sz, q) \<Rightarrow>
          (case ReadArray mx q sz of
             Inl e \<Rightarrow> Inl e
           | Inr (buffer, r) \<Rightarrow>
               Inr (dec (if trimNull \<and> buffer \<noteq> [] \<and> last buffer = 0 then butlast buffer
                         else buffer), r)))"

text \<open>
  The copy constructor \<open>ReadOnlyPacket(other, start, size)\<close>: a view of \<open>size\<close>
  bytes that starts \<open>start\<close> bytes into the storage of \<open>other\<close>.
\<close>

definition ReadOnlyPacket_view :: "ReadOnlyPacket \<Rightarrow> u32 \<Rightarrow> u32 \<Rightarrow> exn + ReadOnlyPacket" where
  "ReadOnlyPacket_view other start sz =
     (if start + sz > mSize other then Inl PacketException
      else Inr \<lparr>mPosition = 0, mSize = sz, mData = drop (unat start) (mData other)\<rparr>)"

text \<open>The valid bytes of a packet: the first \<open>mSize\<close> bytes of its storage.\<close>

definition ConstData :: "ReadOnlyPacket \<Rightarrow> u8 list" where
  "ConstData p = take (unat (mSize p)) (mData p)"

text \<open>
  Modelled from the spec: \<open>Packet::Clear\<close> (Packet.cpp is not among the
  sources) empties the packet: no valid bytes, the cursor at the start.
\<close>

definition Clear :: "ReadOnlyPacket \<Rightarrow> ReadOnlyPacket" where
  "Clear p = p\<lparr>mPosition := 0, mSize := 0\<rparr>"

section \<open>Encrypted connections (EncryptedConnection.cpp)\<close>

text \<open>
  Modelled from the spec: the status of a connection (TcpConnection.h is not
  among the sources) is one of not-connected, connecting, encrypting,
  waiting-encryption and encrypted.
\<close>

datatype ConnectionStatus_t =
  STATUS_NOT_CONNECTED | STATUS_CONNECTING | STATUS_ENCRYPTING
  | STATUS_WAITING_ENCRYPTION | STATUS_ENCRYPTED

text \<open>The member function \<open>mPacketParser\<close> points to; \<open>None\<close> is \<open>nullptr\<close>.\<close>

datatype PacketParser =
  ParseClientEncryptionStart_fn | ParseServerEncryptionStart_fn
  | ParseServerEncryptionFinish_fn | ParsePacket_fn

text \<open>
  The messages a connection puts on the queue of the workers. The first
  argument is the connection (its address); a packet message carries the
  command code and the view of the command's payload.
\<close>

datatype Message =
  Message_Packet nat u16 ReadOnlyPacket
  | Message_ConnectionClosed nat
  | Message_Encrypted nat

text \<open>
  A connection. \<open>self\<close> stands for the address \<open>shared_from_this()\<close> returns
  (the check \<open>this != self.get()\<close> of the source never fires and is left
  out). \<open>mMessageQueue\<close> is a weak pointer to the queue shared with the
  workers: \<open>None\<close> when \<open>lock()\<close> gives \<open>nullptr\<close>, otherwise the messages
  enqueued so far, oldest first. \<open>mOutgoing\<close> holds the packets handed to
  \<open>SendPacket\<close>. The capture file is left out: it is written to and never
  read.
\<close>

record 'dh Connection =
  self :: nat
  mStatus :: ConnectionStatus_t
  mPacketParser :: "PacketParser option"
  mEncryptionKey :: "u8 list"
  mDiffieHellman :: 'dh
  mMessageQueue :: "Message list option"
  mOutgoing :: "u8 list list"

text \<open>
  What the connection takes from outside the sources: the constants of
  Constants.h, the Diffie-Hellman primitives (Crypto.cpp, TcpConnection.cpp,
  over OpenSSL), the string conversion, the Blowfish decryption of a packet
  and the answer of \<open>RequestPacket\<close> to a request for \<open>n\<close> more bytes.
\<close>

record 'dh Env =
  MAX_PACKET_SIZE :: u32
  DH_KEY_HEX_SIZE :: u32
  DH_BASE_STRING :: "u8 list"
  BF_NET_KEY_BYTE_SIZE :: nat
  LoadDiffieHellman :: "u8 list \<Rightarrow> 'dh"
  GenerateDiffieHellmanPublic :: "'dh \<Rightarrow> u8 list"
  GenerateDiffieHellmanSharedData :: "'dh \<Rightarrow> u8 list \<Rightarrow> u8 list"
  FromEncoding :: "u8 list \<Rightarrow> u8 list"
  ToEncoding :: "u8 list \<Rightarrow> u8 list"
  DecryptPacket :: "u8 list \<Rightarrow> ReadOnlyPacket \<Rightarrow> ReadOnlyPacket"
  RequestPacket :: "nat \<Rightarrow> bool"

text \<open>
  Modelled from the spec: \<open>TcpConnection::Close\<close> (TcpConnection.cpp is not
  among the sources). Closing a connection that is not yet closed makes its
  status not-connected and reports that it did so; closing a closed
  connection does nothing.
\<close>

definition TcpConnection_Close :: "'dh Connection \<Rightarrow> bool \<times> 'dh Connection" where
  "TcpConnection_Close c =
     (if mStatus c \<noteq> STATUS_NOT_CONNECTED then (True, c\<lparr>mStatus := STATUS_NOT_CONNECTED\<rparr>)
      else (False, c))"

text \<open>\<open>EncryptedConnection::Close\<close>: one final message when the connection closed.\<close>

definition Close :: "'dh Connection \<Rightarrow> bool \<times> 'dh Connection" where
  "Close c =
     (case TcpConnection_Close c of
        (closed, c') \<Rightarrow>
          (case mMessageQueue c' of
             Some q \<Rightarrow>
               if closed then (True, c'\<lparr>mMessageQueue := Some (q @ [Message_ConnectionClosed (self c')])\<rparr>)
               else (False, c')
           | None \<Rightarrow> (False, c')))"

text \<open>
  Modelled from the spec: \<open>TcpConnection::SocketError\<close> (TcpConnection.cpp is
  not among the sources). A failure transitions the connection to
  not-connected and emits a \<open>ConnectionClosed\<close> message, which is what the
  virtual \<open>Close\<close> does.
\<close>

definition TcpConnection_SocketError :: "'dh Connection \<Rightarrow> 'dh Connection" where
  "TcpConnection_SocketError c = snd (Close c)"

text \<open>\<open>EncryptedConnection::SocketError\<close>: the base class, then the parser is dropped.\<close>

definition SocketError :: "'dh Connection \<Rightarrow> 'dh Connection" where
  "SocketError c = (TcpConnection_SocketError c)\<lparr>mPacketParser := None\<rparr>"

text \<open>
  Modelled from the spec: \<open>TcpConnection::SendPacket\<close> (TcpConnection.cpp is
  not among the sources). Outgoing packets are queued in the order they were
  sent.
\<close>

definition SendPacket :: "'dh Connection \<Rightarrow> u8 list \<Rightarrow> 'dh Connection" where
  "SendPacket c pkt = c\<lparr>mOutgoing := mOutgoing c @ [pkt]\<rparr>"

text \<open>
  Modelled from the spec: \<open>TcpConnection::SetEncryptionKey\<close> (TcpConnection.cpp
  is not among the sources). The Blowfish key is set from the shared secret.
\<close>

definition SetEncryptionKey :: "'dh Connection \<Rightarrow> u8 list \<Rightarrow> 'dh Connection" where
  "SetEncryptionKey c sharedData = c\<lparr>mEncryptionKey := sharedData\<rparr>"

text \<open>
  \<open>SendMessage\<close>: enqueue the message the allocation function builds for this
  connection, then ask for the two sizes of the next frame.
\<close>

definition SendMessage :: "'dh Env \<Rightarrow> 'dh Connection \<Rightarrow> (nat \<Rightarrow> Message) \<Rightarrow> 'dh Connection" where
  "SendMessage env c messageAllocFunction =
     (let c1 = (case mMessageQueue c of
                  None \<Rightarrow> SocketError c
                | Some q \<Rightarrow> c\<lparr>mMessageQueue := Some (q @ [messageAllocFunction (self c)])\<rparr>)
      in if \<not> RequestPacket env 8 then SocketError c1 else c1)"

definition ConnectionEncrypted :: "'dh Env \<Rightarrow> 'dh Connection \<Rightarrow> 'dh Connection" where
  "ConnectionEncrypted env c = SendMessage env c Message_Encrypted"

subsection \<open>The Diffie-Hellman handshake\<close>

definition bytes_be32 :: "u32 \<Rightarrow> u8 list" where
  "bytes_be32 w = [ucast (drop_bit 24 w), ucast (drop_bit 16 w), ucast (drop_bit 8 w), ucast w]"

text \<open>
  Modelled from the spec: \<open>Packet::WriteString32Big\<close> into an empty packet
  (Packet.cpp is not among the sources). A string is written as its length,
  a big-endian 32-bit integer, followed by its bytes in the encoding.
\<close>

definition WriteString32Big :: "'dh Env \<Rightarrow> u8 list \<Rightarrow> u8 list" where
  "WriteString32Big env str = bytes_be32 (of_nat (length (ToEncoding env str))) @ ToEncoding env str"

text \<open>
  The client has the parameters of the server: four zero bytes, the base, the
  prime and the public value of the server, each string with its length in
  front. A check that fails calls \<open>SocketError\<close> and clears \<open>status\<close>; the
  final \<open>else\<close> then clears the packet and calls \<open>SocketError\<close> once more.
  The result is the connection, the packet and the exception that left the
  function, if one did.
\<close>

definition ParseClientEncryptionStart ::
  "'dh Env \<Rightarrow> 'dh Connection \<Rightarrow> ReadOnlyPacket \<Rightarrow> 'dh Connection \<times> ReadOnlyPacket \<times> exn option" where
  "ParseClientEncryptionStart env conn packet =
     (let mx = MAX_PACKET_SIZE env;
          need = length (DH_BASE_STRING env) + 2 * unat (DH_KEY_HEX_SIZE env) + 16;
          failed = (\<lambda>p. (SocketError (SocketError conn), Clear p, None))
      in if need > unat (Size packet) then
           (if \<not> RequestPacket env (need - unat (Size packet)) then (SocketError conn, packet, None)
            else (conn, packet, None))
         else
           (case ReadU32Big mx packet of
              Inl e \<Rightarrow> (conn, packet, Some e)
            | Inr (zero, p1) \<Rightarrow>
                if 0 \<noteq> zero then failed p1
                else
                  (case PeekU32Big p1 of
                     Inl e \<Rightarrow> (conn, p1, Some e)
                   | Inr baseSize \<Rightarrow>
                       if length (DH_BASE_STRING env) \<noteq> unat baseSize then failed p1
                       else
                         (case ReadString32Big mx (FromEncoding env) False p1 of
                            Inl e \<Rightarrow> (conn, p1, Some e)
                          | Inr (base, p2) \<Rightarrow>
                              if DH_BASE_STRING env \<noteq> base then failed p2
                              else
                                (case PeekU32Big p2 of
                                   Inl e \<Rightarrow> (conn, p2, Some e)
                                 | Inr primeSize \<Rightarrow>
                                     if DH_KEY_HEX_SIZE env \<noteq> primeSize then failed p2
                                     else
                                       (case ReadString32Big mx (FromEncoding env) False p2 of
                                          Inl e \<Rightarrow> (conn, p2, Some e)
                                        | Inr (prime, p3) \<Rightarrow>
                                            (case PeekU32Big p3 of
                                               Inl e \<Rightarrow> (conn, p3, Some e)
                                             | Inr publicSize \<Rightarrow>
                                                 if DH_KEY_HEX_SIZE env \<noteq> publicSize then failed p3
                                                 else
                                                   (case ReadString32Big mx (FromEncoding env) False p3 of
                                                      Inl e \<Rightarrow> (conn, p3, Some e)
                                                    | Inr (serverPublic, p4) \<Rightarrow>
                                                        if 0 = Left p4 then
                                                          (let c1 = conn\<lparr>mStatus := STATUS_WAITING_ENCRYPTION\<rparr>;
                                                               c2 = c1\<lparr>mDiffieHellman := LoadDiffieHellman env prime\<rparr>;
                                                               clientPublic = GenerateDiffieHellmanPublic env (mDiffieHellman c2);
                                                               sharedData = GenerateDiffieHellmanSharedData env
                                                                              (mDiffieHellman c2) serverPublic
                                                           in if BF_NET_KEY_BYTE_SIZE env \<noteq> length sharedData
                                                              then (SocketError c2, Clear p4, None)
                                                              else
                                                                (let c3 = SendPacket c2 (WriteString32Big env clientPublic);
                                                                     c4 = SetEncryptionKey c3 sharedData;
                                                                     c5 = c4\<lparr>mStatus := STATUS_ENCRYPTED\<rparr>;
                                                                     c6 = c5\<lparr>mPacketParser := Some ParsePacket_fn\<rparr>
                                                                 in (ConnectionEncrypted env c6, Clear p4, None)))
                                                        else (SocketError conn, Clear p4, None)))))))))"

text \<open>
  The server has the public value of the client, a string with its length in
  front.
\<close>

definition ParseServerEncryptionFinish ::
  "'dh Env \<Rightarrow> 'dh Connection \<Rightarrow> ReadOnlyPacket \<Rightarrow> 'dh Connection \<times> ReadOnlyPacket \<times> exn option" where
  "ParseServerEncryptionFinish env conn packet =
     (let mx = MAX_PACKET_SIZE env
      in if 4 > unat (Size packet) then
           (case PeekU32Big packet of
              Inl e \<Rightarrow> (conn, packet, Some e)
            | Inr n \<Rightarrow>
                if \<not> RequestPacket env (unat n + 4 - unat (Size packet)) then (SocketError conn, packet, None)
                else (conn, packet, None))
         else
           (case PeekU32Big packet of
              Inl e \<Rightarrow> (conn, packet, Some e)
            | Inr n \<Rightarrow>
                if 4 + unat n > unat (Size packet) then
                  (if \<not> RequestPacket env (unat n + 4 - unat (Size packet)) then (SocketError conn, packet, None)
                   else (conn, packet, None))
                else if DH_KEY_HEX_SIZE env < n then (SocketError conn, packet, None)
                else
                  (case ReadString32Big mx (FromEncoding env) False packet of
                     Inl e \<Rightarrow> (conn, packet, Some e)
                   | Inr (clientPublic, p1) \<Rightarrow>
                       if 0 = Left p1 then
                         (let sharedData = GenerateDiffieHellmanSharedData env
                                             (mDiffieHellman conn) clientPublic
                          in if BF_NET_KEY_BYTE_SIZE env \<noteq> length sharedData
                             then (SocketError conn, Clear p1, None)
                             else
                               (let c1 = SetEncryptionKey conn sharedData;
                                    c2 = c1\<lparr>mStatus := STATUS_ENCRYPTED\<rparr>;
                                    c3 = c2\<lparr>mPacketParser := Some ParsePacket_fn\<rparr>
                                in (ConnectionEncrypted env c3, Clear p1, None)))
                       else (SocketError conn, Clear p1, None))))"

text \<open>
  The parameters the server sends and the answer of the client, as bytes on
  the wire.
\<close>

definition server_parameters :: "'dh Env \<Rightarrow> u8 list \<Rightarrow> u8 list \<Rightarrow> u8 list" where
  "server_parameters env prime serverPublic =
     [0, 0, 0, 0] @ bytes_be32 (of_nat (length (DH_BASE_STRING env))) @ DH_BASE_STRING env
       @ bytes_be32 (DH_KEY_HEX_SIZE env) @ prime @ bytes_be32 (DH_KEY_HEX_SIZE env) @ serverPublic"

definition client_public :: "u8 list \<Rightarrow> u8 list" where
  "client_public clientPublic = bytes_be32 (of_nat (length clientPublic)) @ clientPublic"

subsection \<open>Splitting a decrypted frame into commands\<close>

text \<open>
  How the command loop of \<open>ParsePacket(packet, paddedSize, realSize)\<close> ends:
  the loop condition became false, \<open>errorFound\<close> was set (after a
  \<open>SocketError\<close>), or a packet operation threw.
\<close>

datatype loop_exit = Done | ErrorFound | Thrown exn

function ParsePacket_loop ::
  "u32 \<Rightarrow> u32 \<Rightarrow> 'dh Connection \<Rightarrow> ReadOnlyPacket \<Rightarrow> 'dh Connection \<times> ReadOnlyPacket \<times> loop_exit" where
  "ParsePacket_loop mx padding conn copy =
     (if \<not> Left copy > padding then (conn, copy, Done)
      else if Left copy < 6 then (SocketError conn, copy, ErrorFound)
      else
        (case Skip mx copy 2 of
           Inl e \<Rightarrow> (conn, copy, Thrown e)
         | Inr c1 \<Rightarrow>
             (let commandStart = Tell c1 in
              case ReadU16Little mx c1 of
                Inl e \<Rightarrow> (conn, c1, Thrown e)
              | Inr (commandSize, c2) \<Rightarrow>
                  (case ReadU16Little mx c2 of
                     Inl e \<Rightarrow> (conn, c2, Thrown e)
                   | Inr (commandCode, c3) \<Rightarrow>
                       if commandSize < 4 then (SocketError conn, c3, ErrorFound)
                       else if Left c3 < ucast commandSize - 4 then (SocketError conn, c3, ErrorFound)
                       else
                         (case mMessageQueue conn of
                            None \<Rightarrow> (SocketError conn, c3, ErrorFound)
                          | Some q \<Rightarrow>
                              (case ReadOnlyPacket_view c3 (commandStart + 4) (ucast commandSize - 4) of
                                 Inl e \<Rightarrow> (conn, c3, Thrown e)
                               | Inr command \<Rightarrow>
                                   (let conn' = conn\<lparr>mMessageQueue :=
                                          Some (q @ [Message_Packet (self conn) commandCode command])\<rparr>
                                    in case Seek mx c3 (commandStart + ucast commandSize) of
                                         Inl e \<Rightarrow> (conn', c3, Thrown e)
                                       | Inr c4 \<Rightarrow> ParsePacket_loop mx padding conn' c4)))))))"
  by pat_completeness auto
termination
proof (relation "measure (\<lambda>(mx, padding, conn, copy). unat (Left copy))", goal_cases)
  case 1
  show ?case by simp
next
  case (2 mx padding conn copy c1 commandStart x commandSize c2 y commandCode c3 q command conn' c4)
  from 2 have s: "mSize c4 = mSize copy" and p1: "mPosition c1 = mPosition copy + 2"
    and p4: "mPosition c4 = mPosition c1 + ucast commandSize"
    and p3: "mPosition c3 = mPosition copy + 6"
    by (auto simp: Skip_def ReadU16Little_def Seek_def Tell_def split: if_splits sum.splits)
  from 2 have a: "6 \<le> unat (Left copy)" and b: "4 \<le> unat commandSize"
    and c: "unat (ucast commandSize - (4::u32)) \<le> unat (Left c3)"
    and s3: "mSize c3 = mSize copy"
    by (auto simp: word_less_nat_alt word_le_nat_alt not_less Skip_def ReadU16Little_def
             split: if_splits sum.splits)
  define L where "L = Left copy"
  define w :: u32 where "w = ucast commandSize"
  have uw: "unat w = unat commandSize"
  proof -
    have "unat commandSize < 2 ^ 32"
      using unsigned_less[of commandSize, where ?'a = nat] by simp
    then show ?thesis by (simp add: w_def unsigned_ucast_eq take_bit_nat_eq_self)
  qed
  have w4: "unat (w - 4) = unat w - 4"
    using b uw by (simp add: unat_sub word_le_nat_alt)
  have L3: "Left c3 = L - 6" by (simp add: Left_def L_def p3 s3)
  have L6: "unat (L - 6) = unat L - 6"
    using a by (simp add: unat_sub word_le_nat_alt L_def)
  have le: "unat w + 2 \<le> unat L"
    using c a b uw w4 L3 L6 by (simp add: w_def L_def)
  have w65: "unat w < 65536"
    using uw unsigned_less[of commandSize, where ?'a = nat] by simp
  have u2: "unat (2 + w) = 2 + unat w"
    using w65 by (simp add: unat_word_ariths)
  have L4: "Left c4 = L - (2 + w)" by (simp add: Left_def L_def p4 p1 s w_def)
  have "unat (L - (2 + w)) = unat L - (2 + unat w)"
    using le u2 by (simp add: unat_sub word_le_nat_alt)
  then show ?case using le L4 b uw by (simp add: L_def)
qed

text \<open>
  \<open>ParsePacket(packet, paddedSize, realSize)\<close>. \<open>DecompressPacket\<close> of this
  class does nothing and returns true. The result is the connection and the
  exception that left the function, if one did.
\<close>

definition ParsePacket_frame ::
  "'dh Env \<Rightarrow> 'dh Connection \<Rightarrow> ReadOnlyPacket \<Rightarrow> u32 \<Rightarrow> u32 \<Rightarrow> 'dh Connection \<times> exn option" where
  "ParsePacket_frame env conn packet paddedSize realSize =
     (let decrypted = DecryptPacket env (mEncryptionKey conn) packet;
          dataStart = 8
      in case Seek (MAX_PACKET_SIZE env) decrypted dataStart of
           Inl e \<Rightarrow> (conn, Some e)
         | Inr copy \<Rightarrow>
             (let padding = paddedSize - realSize
              in case ParsePacket_loop (MAX_PACKET_SIZE env) padding conn copy of
                   (conn1, copy1, Thrown e) \<Rightarrow> (conn1, Some e)
                 | (conn1, copy1, ErrorFound) \<Rightarrow> (conn1, None)
                 | (conn1, copy1, Done) \<Rightarrow>
                     (case Skip (MAX_PACKET_SIZE env) copy1 padding of
                        Inl e \<Rightarrow> (conn1, Some e)
                      | Inr copy2 \<Rightarrow>
                          if Left copy2 \<noteq> 0 then (SocketError conn1, None)
                          else (conn1, None))))"

text \<open>
  The layout of a command on the wire: two bytes that are skipped, the
  little-endian \<open>commandSize\<close> (the payload and the four bytes of the size and
  the code), the little-endian \<open>commandCode\<close>, the payload.
\<close>

record command =
  cmd_hint0 :: u8
  cmd_hint1 :: u8
  cmd_code :: u16
  cmd_payload :: "u8 list"

definition bytes_le16 :: "u16 \<Rightarrow> u8 list" where
  "bytes_le16 w = [ucast w, ucast (drop_bit 8 w)]"

definition command_bytes :: "command \<Rightarrow> u8 list" where
  "command_bytes c =
     [cmd_hint0 c, cmd_hint1 c] @ bytes_le16 (of_nat (length (cmd_payload c) + 4))
       @ bytes_le16 (cmd_code c) @ cmd_payload c"

text \<open>A command is well formed when its size fits the 16 bits of \<open>commandSize\<close>.\<close>

definition command_ok :: "command \<Rightarrow> bool" where
  "command_ok c \<longleftrightarrow> length (cmd_payload c) + 4 < 2 ^ 16"

text \<open>What a packet message delivers: the connection, the code and the payload bytes.\<close>

fun delivered :: "Message \<Rightarrow> (nat \<times> u16 \<times> u8 list) option" where
  "delivered (Message_Packet c code view) = Some (c, code, ConstData view)"
| "delivered (Message_ConnectionClosed c) = None"
| "delivered (Message_Encrypted c) = None"

subsection \<open>A concrete connection and two frames\<close>

text \<open>
  An environment with a capacity of 16384 bytes and a cipher that leaves the
  packet as it is, a connection in the encrypted state, and the frame of the
  command split scenario: a chat command and a keep-alive command followed by
  two bytes of padding. The corrupt frame replaces the second command by a
  header with \<open>commandSize = 3\<close>.
\<close>

definition demo_env :: "unit Env" where
  "demo_env = \<lparr>MAX_PACKET_SIZE = 16384, DH_KEY_HEX_SIZE = 4, DH_BASE_STRING = [50],
     BF_NET_KEY_BYTE_SIZE = 8, LoadDiffieHellman = (\<lambda>prime. ()),
     GenerateDiffieHellmanPublic = (\<lambda>dh. [49, 50, 51, 52]),
     GenerateDiffieHellmanSharedData = (\<lambda>dh other. [1, 2, 3, 4, 5, 6, 7, 8]),
     FromEncoding = (\<lambda>bs. bs), ToEncoding = (\<lambda>bs. bs),
     DecryptPacket = (\<lambda>key p. p), RequestPacket = (\<lambda>n. True)\<rparr>"

definition demo_conn :: "unit Connection" where
  "demo_conn = \<lparr>self = 1, mStatus = STATUS_ENCRYPTED, mPacketParser = Some ParsePacket_fn,
     mEncryptionKey = [1, 2, 3, 4, 5, 6, 7, 8], mDiffieHellman = (),
     mMessageQueue = Some [], mOutgoing = []\<rparr>"

definition demo_chat :: command where
  "demo_chat = \<lparr>cmd_hint0 = 0, cmd_hint1 = 6, cmd_code = 0x26, cmd_payload = [104, 105]\<rparr>"

definition demo_keepalive :: command where
  "demo_keepalive = \<lparr>cmd_hint0 = 0, cmd_hint1 = 5, cmd_code = 0x56, cmd_payload = [7]\<rparr>"

definition demo_frame :: ReadOnlyPacket where
  "demo_frame = \<lparr>mPosition = 8, mSize = 25,
     mData = [0, 0, 0, 17, 0, 0, 0, 15] @ command_bytes demo_chat @ command_bytes demo_keepalive @ [0, 0]\<rparr>"

definition demo_corrupt_frame :: ReadOnlyPacket where
  "demo_corrupt_frame = \<lparr>mPosition = 8, mSize = 24,
     mData = [0, 0, 0, 16, 0, 0, 0, 14] @ command_bytes demo_chat @ [0, 5, 3, 0, 0x56, 0] @ [0, 0]\<rparr>"


text \<open>
  The two outcomes of a derivation. The key is accepted: the connection has
  the shared data as its key, the status encrypted and the frame parser when
  \<open>ConnectionEncrypted\<close> is called, and it still has them afterwards when the
  message queue is alive and the next read can be requested. The connection
  is dropped: \<open>SocketError\<close> left it not connected, without a parser, with the
  key it had.
\<close>

definition key_accepted :: "'dh Env \<Rightarrow> 'dh Connection \<Rightarrow> u8 list \<Rightarrow> 'dh Connection \<Rightarrow> bool" where
  "key_accepted env conn sharedData r \<longleftrightarrow>
     (\<exists>c. r = ConnectionEncrypted env c \<and> mEncryptionKey c = sharedData \<and>
          mStatus c = STATUS_ENCRYPTED \<and> mPacketParser c = Some ParsePacket_fn) \<and>
     (mMessageQueue conn \<noteq> None \<and> RequestPacket env 8 \<longrightarrow>
        mEncryptionKey r = sharedData \<and> mStatus r = STATUS_ENCRYPTED \<and>
        mPacketParser r = Some ParsePacket_fn)"

definition dropped :: "'dh Connection \<Rightarrow> 'dh Connection \<Rightarrow> bool" where
  "dropped conn r \<longleftrightarrow>
     (\<exists>c. r = SocketError c) \<and> mStatus r = STATUS_NOT_CONNECTED \<and> mPacketParser r = None \<and>
     mEncryptionKey r = mEncryptionKey conn"

text \<open>
  A derivation is performed when the whole message of the peer has arrived
  and its length fields are as expected: the packet holds exactly the
  parameters of the server (client role) or the public value of the client
  (server role), the cursor at the start.
\<close>

definition client_parameters_arrived :: "'dh Env \<Rightarrow> ReadOnlyPacket \<Rightarrow> u8 list \<Rightarrow> u8 list \<Rightarrow> bool" where
  "client_parameters_arrived env packet prime serverPublic \<longleftrightarrow>
     mPosition packet = 0 \<and>
     mSize packet = of_nat (length (server_parameters env prime serverPublic)) \<and>
     take (length (server_parameters env prime serverPublic)) (mData packet) =
       server_parameters env prime serverPublic \<and>
     length (server_parameters env prime serverPublic) \<le> unat (MAX_PACKET_SIZE env) \<and>
     length prime = unat (DH_KEY_HEX_SIZE env) \<and>
     length serverPublic = unat (DH_KEY_HEX_SIZE env) \<and>
     FromEncoding env (DH_BASE_STRING env) = DH_BASE_STRING env"

definition server_public_arrived :: "'dh Env \<Rightarrow> ReadOnlyPacket \<Rightarrow> u8 list \<Rightarrow> bool" where
  "server_public_arrived env packet clientPublic \<longleftrightarrow>
     mPosition packet = 0 \<and>
     mSize packet = of_nat (length (client_public clientPublic)) \<and>
     take (length (client_public clientPublic)) (mData packet) = client_public clientPublic \<and>
     length (client_public clientPublic) \<le> unat (MAX_PACKET_SIZE env) \<and>
     length clientPublic \<le> unat (DH_KEY_HEX_SIZE env)"

text \<open>
  For the handshake: an environment whose shared data has seven bytes instead
  of eight, a connection that is not yet encrypted, the parameters of a
  server and the public value of a client (four hex digits each).
\<close>

definition demo_env_short :: "unit Env" where
  "demo_env_short = demo_env\<lparr>GenerateDiffieHellmanSharedData := (\<lambda>dh other. [1, 2, 3, 4, 5, 6, 7])\<rparr>"

definition demo_handshake_conn :: "unit Connection" where
  "demo_handshake_conn = \<lparr>self = 1, mStatus = STATUS_ENCRYPTING,
     mPacketParser = Some ParseClientEncryptionStart_fn,
     mEncryptionKey = [], mDiffieHellman = (),
     mMessageQueue = Some [], mOutgoing = []\<rparr>"

definition demo_parameters :: ReadOnlyPacket where
  "demo_parameters = \<lparr>mPosition = 0, mSize = 25,
     mData = [0, 0, 0, 0, 0, 0, 0, 1, 50, 0, 0, 0, 4, 70, 70, 70, 55, 0, 0, 0, 4, 48, 49, 65, 66]\<rparr>"

definition demo_public :: ReadOnlyPacket where
  "demo_public = \<lparr>mPosition = 0, mSize = 8, mData = [0, 0, 0, 4, 48, 50, 67, 68]\<rparr>"

section \<open>Persistent objects and the identity cache (PersistentObject.cpp)\<close>

text \<open>
  A UUID is 128 bits; the null UUID is zero. The cache is keyed by the string
  of the UUID, which determines the UUID, so the model keys it by the UUID.
\<close>

type_synonym UUID = "128 word"

definition IsNull :: "UUID \<Rightarrow> bool" where
  "IsNull u \<longleftrightarrow> u = 0"

text \<open>
  An object has its UUID, the deleted flag and the weak pointer to itself.
  Objects live in a store, by address; an address that is not in the store is
  an object that has been destroyed. \<open>sCached\<close> maps a UUID to a weak pointer,
  the address of the object it was made from.
\<close>

record PersistentObject =
  mUUID :: UUID
  mDeleted :: bool
  mSelf :: "nat option"

record ObjectStore =
  objects :: "nat \<rightharpoonup> PersistentObject"
  sCached :: "UUID \<rightharpoonup> nat"

text \<open>\<open>weak_ptr::lock\<close>: the object, when it is still alive.\<close>

definition lock :: "ObjectStore \<Rightarrow> nat \<Rightarrow> nat option" where
  "lock st a = (if a \<in> dom (objects st) then Some a else None)"

text \<open>
  \<open>Register(self, pUuid)\<close>. \<open>selfp\<close> is the shared pointer \<open>self\<close>, so the object is alive;
  for an address that is not alive the model answers false. \<open>rnd\<close> is the UUID
  \<open>UUID::Random()\<close> returns. The UUID of the object is assigned through a
  reference, so it keeps its new value when the registration fails.
\<close>

definition Register :: "UUID \<Rightarrow> ObjectStore \<Rightarrow> nat \<Rightarrow> UUID \<Rightarrow> bool \<times> ObjectStore" where
  "Register rnd st selfp pUuid =
     (case objects st selfp of
        None \<Rightarrow> (False, st)
      | Some obj \<Rightarrow>
          if \<not> mDeleted obj then
            (let uuid = mUUID obj;
                 cache1 =
                   (if \<not> IsNull pUuid \<and> \<not> IsNull uuid then
                      (case sCached st uuid of
                         Some it \<Rightarrow> if lock st it = Some selfp then (sCached st)(uuid := None)
                                    else sCached st
                       | None \<Rightarrow> sCached st)
                    else sCached st);
                 uuid1 = (if \<not> IsNull pUuid then pUuid else if IsNull uuid then rnd else uuid);
                 registered = (IsNull pUuid \<and> IsNull uuid);
                 registered1 = (registered \<or> cache1 uuid1 = None)
             in if registered1 then
                  (True, st\<lparr>objects := (objects st)(selfp \<mapsto> obj\<lparr>mUUID := uuid1, mSelf := Some selfp\<rparr>),
                            sCached := cache1(uuid1 \<mapsto> selfp)\<rparr>)
                else
                  (False, st\<lparr>objects := (objects st)(selfp \<mapsto> obj\<lparr>mUUID := uuid1\<rparr>),
                             sCached := cache1\<rparr>))
          else (False, st))"

definition Unregister :: "ObjectStore \<Rightarrow> nat \<Rightarrow> ObjectStore" where
  "Unregister st selfp =
     (case objects st selfp of
        None \<Rightarrow> st
      | Some obj \<Rightarrow>
          st\<lparr>objects := (objects st)(selfp \<mapsto> obj\<lparr>mDeleted := True\<rparr>),
             sCached := (sCached st)(mUUID obj := None)\<rparr>)"

definition GetObjectByUUID :: "ObjectStore \<Rightarrow> UUID \<Rightarrow> nat option" where
  "GetObjectByUUID st uuid =
     (case sCached st uuid of
        Some it \<Rightarrow> lock st it
      | None \<Rightarrow> None)"

text \<open>
  The claim of the specification for a duplicate: the registration fails and
  the cache is as it was.
\<close>

definition duplicate_refused_cache_unchanged :: "UUID \<Rightarrow> ObjectStore \<Rightarrow> nat \<Rightarrow> UUID \<Rightarrow> bool" where
  "duplicate_refused_cache_unchanged rnd st selfp pUuid \<longleftrightarrow>
     fst (Register rnd st selfp pUuid) = False \<and>
     sCached (snd (Register rnd st selfp pUuid)) = sCached st"

text \<open>
  Three objects: the first two are cached, each under its own UUID; the third
  is a second instance with the UUID of the first and is not cached.
\<close>

definition demo_store :: ObjectStore where
  "demo_store = \<lparr>objects = [1 \<mapsto> \<lparr>mUUID = 1, mDeleted = False, mSelf = Some 1\<rparr>,
                              2 \<mapsto> \<lparr>mUUID = 2, mDeleted = False, mSelf = Some 2\<rparr>,
                              3 \<mapsto> \<lparr>mUUID = 1, mDeleted = False, mSelf = None\<rparr>],
                  sCached = [1 \<mapsto> 1, 2 \<mapsto> 2]\<rparr>"

section \<open>The script registry (ServerDataManager.cpp)\<close>














section \<open>Zone partials (ServerDataManager.cpp)\<close>

text \<open>
  Modelled from the spec: the classes of the zone definitions, which are
  generated and not among the sources, by the members the spawn loop of
  \<open>ApplyZonePartial\<close> uses. A spawn has its enemy type and four lists (item drops and gifts are
  objects, held by address). Spawns are shared objects: the zone and the
  partial hold pointers into a store of spawns, and \<open>Append...\<close> changes the
  object in the store, for everyone who holds it.
\<close>

record Spawn =
  EnemyType :: u32
  Drops :: "nat list"
  DropSetIDs :: "u32 list"
  Gifts :: "nat list"
  GiftSetIDs :: "u32 list"

type_synonym spawn_store = "nat \<rightharpoonup> Spawn"

text \<open>
  The spawns of a zone, by key, and the spawns of a partial, in the order the
  loop visits them (an unordered map: every key once).
\<close>

record ServerZone =
  Spawns :: "u32 \<rightharpoonup> nat"

record ServerZonePartial =
  PartialSpawns :: "(u32 \<times> nat) list"

text \<open>
  One round of the loop \<open>for (auto& sPair : partial->GetSpawns())\<close>. The
  getters return copies of the lists of the partial's spawn, taken before the
  existing spawn is changed. A pointer is never null or dangling in the
  source; the model leaves the state as it is for an address without object.
\<close>

definition ApplyZonePartial_spawn ::
  "u32 \<times> nat \<Rightarrow> ServerZone \<times> spawn_store \<Rightarrow> ServerZone \<times> spawn_store" where
  "ApplyZonePartial_spawn sPair s =
     (case s of (zone, store) \<Rightarrow>
        (case store (snd sPair) of
           None \<Rightarrow> (zone, store)
         | Some spawn \<Rightarrow>
             if EnemyType spawn \<noteq> 0 then
               (zone\<lparr>Spawns := (Spawns zone)(fst sPair \<mapsto> snd sPair)\<rparr>, store)
             else
               (case Spawns zone (fst sPair) of
                  None \<Rightarrow> (zone, store)
                | Some existing \<Rightarrow>
                    (case store existing of
                       None \<Rightarrow> (zone, store)
                     | Some ex \<Rightarrow>
                         (zone, store(existing \<mapsto>
                            ex\<lparr>DropSetIDs := DropSetIDs ex @ DropSetIDs spawn,
                               Drops := Drops ex @ Drops spawn,
                               GiftSetIDs := GiftSetIDs ex @ GiftSetIDs spawn,
                               Gifts := Gifts ex @ Gifts spawn\<rparr>))))))"

text \<open>The spawn loop of \<open>ApplyZonePartial(zone, partial, positionReplace)\<close>.\<close>

definition ApplyZonePartial_spawns ::
  "ServerZone \<Rightarrow> ServerZonePartial \<Rightarrow> spawn_store \<Rightarrow> ServerZone \<times> spawn_store" where
  "ApplyZonePartial_spawns zone partial store =
     fold ApplyZonePartial_spawn (PartialSpawns partial) (zone, store)"

text \<open>The lists of \<open>sp'\<close> are those of \<open>sp\<close> with the lists of \<open>spawn\<close> appended.\<close>

definition appended :: "Spawn \<Rightarrow> Spawn \<Rightarrow> Spawn \<Rightarrow> bool" where
  "appended sp spawn sp' \<longleftrightarrow>
     EnemyType sp' = EnemyType sp \<and>
     Drops sp' = Drops sp @ Drops spawn \<and> DropSetIDs sp' = DropSetIDs sp @ DropSetIDs spawn \<and>
     Gifts sp' = Gifts sp @ Gifts spawn \<and> GiftSetIDs sp' = GiftSetIDs sp @ GiftSetIDs spawn"

text \<open>The lists of \<open>sp'\<close> start with the lists of \<open>sp\<close>.\<close>

definition extends :: "Spawn \<Rightarrow> Spawn \<Rightarrow> bool" where
  "extends sp sp' \<longleftrightarrow>
     EnemyType sp' = EnemyType sp \<and>
     prefix (Drops sp) (Drops sp') \<and> prefix (DropSetIDs sp) (DropSetIDs sp') \<and>
     prefix (Gifts sp) (Gifts sp') \<and> prefix (GiftSetIDs sp) (GiftSetIDs sp')"

text \<open>
  The existing spawn \<open>e\<close> of key \<open>k\<close> and the spawn \<open>a\<close> of the partial are not
  shared: the zone holds \<open>e\<close> under \<open>k\<close> only and does not hold \<open>a\<close>.
\<close>

definition unshared :: "ServerZone \<Rightarrow> u32 \<Rightarrow> nat \<Rightarrow> nat \<Rightarrow> bool" where
  "unshared zone k e a \<longleftrightarrow>
     (\<forall>k'. k' \<noteq> k \<longrightarrow> Spawns zone k' \<noteq> Some e) \<and> (\<forall>k'. Spawns zone k' \<noteq> Some a)"

text \<open>
  A zone with two spawns and a partial with an entry for each: the entry of
  key 1 has enemy type zero and lists to append, the entry of key 2 has an
  enemy type and replaces.
\<close>

definition demo_spawns :: spawn_store where
  "demo_spawns =
     [10 \<mapsto> \<lparr>EnemyType = 5, Drops = [100], DropSetIDs = [1], Gifts = [], GiftSetIDs = []\<rparr>,
      11 \<mapsto> \<lparr>EnemyType = 6, Drops = [], DropSetIDs = [], Gifts = [], GiftSetIDs = []\<rparr>,
      20 \<mapsto> \<lparr>EnemyType = 0, Drops = [200], DropSetIDs = [2], Gifts = [300], GiftSetIDs = [3]\<rparr>,
      21 \<mapsto> \<lparr>EnemyType = 9, Drops = [], DropSetIDs = [], Gifts = [], GiftSetIDs = []\<rparr>]"

definition demo_zone :: ServerZone where
  "demo_zone = \<lparr>Spawns = [1 \<mapsto> 10, 2 \<mapsto> 11]\<rparr>"

definition demo_partial :: ServerZonePartial where
  "demo_partial = \<lparr>PartialSpawns = [(1, 20), (2, 21)]\<rparr>"

section \<open>The data store (DataStore.cpp)\<close>

text \<open>
  The data store keeps its state in the PhysFS library: the search path, a
  list of directories that is searched from first to last, and the write
  directory. \<open>PHYSFS_mount\<close> fails for a directory it cannot open, leaves
  the search path as it is for a directory that is already mounted, and
  otherwise puts the directory at the end of the search path (append) or at
  its start. Which directories can be opened and which can be written to
  are given by \<open>can_mount\<close> and \<open>can_write\<close>.
\<close>

record PhysFS =
  searchPath :: "string list"
  writeDir :: "string option"

definition PHYSFS_mount :: "(string \<Rightarrow> bool) \<Rightarrow> PhysFS \<Rightarrow> string \<Rightarrow> bool \<Rightarrow> bool \<times> PhysFS" where
  "PHYSFS_mount can_mount fs newDir appendToPath =
     (if \<not> can_mount newDir then (False, fs)
      else if newDir \<in> set (searchPath fs) then (True, fs)
      else if appendToPath then (True, fs\<lparr>searchPath := searchPath fs @ [newDir]\<rparr>)
      else (True, fs\<lparr>searchPath := newDir # searchPath fs\<rparr>))"

definition PHYSFS_setWriteDir :: "(string \<Rightarrow> bool) \<Rightarrow> PhysFS \<Rightarrow> string \<Rightarrow> bool \<times> PhysFS" where
  "PHYSFS_setWriteDir can_write fs newDir =
     (if can_write newDir then (True, fs\<lparr>writeDir := Some newDir\<rparr>) else (False, fs))"

text \<open>\<open>AddSearchPath(path, append)\<close>: mount the directory at the root.\<close>

definition AddSearchPath :: "(string \<Rightarrow> bool) \<Rightarrow> PhysFS \<Rightarrow> string \<Rightarrow> bool \<Rightarrow> bool \<times> PhysFS" where
  "AddSearchPath can_mount fs path appendPath =
     (case PHYSFS_mount can_mount fs path appendPath of
        (False, fs') \<Rightarrow> (False, fs')
      | (True, fs') \<Rightarrow> (True, fs'))"

text \<open>
  \<open>AddSearchPaths(paths)\<close> calls \<open>AddSearchPath(path)\<close> for every path with
  the default of its second parameter. The default is in DataStore.h, which
  is not among the sources, and is the argument \<open>append_default\<close>; the
  comments of both functions ("Search order will be last to first path in
  this list", "Prepend the path to the search path list") describe the
  default \<open>false\<close>.
\<close>

fun AddSearchPaths_loop ::
  "bool \<Rightarrow> (string \<Rightarrow> bool) \<Rightarrow> PhysFS \<Rightarrow> string list \<Rightarrow> bool \<times> PhysFS" where
  "AddSearchPaths_loop append_default can_mount fs [] = (True, fs)"
| "AddSearchPaths_loop append_default can_mount fs (path # paths) =
     (case AddSearchPath can_mount fs path append_default of
        (False, fs') \<Rightarrow> (False, fs')
      | (True, fs') \<Rightarrow> AddSearchPaths_loop append_default can_mount fs' paths)"

definition AddSearchPaths ::
  "bool \<Rightarrow> (string \<Rightarrow> bool) \<Rightarrow> (string \<Rightarrow> bool) \<Rightarrow> PhysFS \<Rightarrow> string list \<Rightarrow> bool \<times> PhysFS" where
  "AddSearchPaths append_default can_mount can_write fs paths =
     (if paths = [] then (False, fs)
      else
        (let lastPath = last paths
         in case AddSearchPaths_loop append_default can_mount fs paths of
              (False, fs') \<Rightarrow> (False, fs')
            | (True, fs') \<Rightarrow>
                (case PHYSFS_setWriteDir can_write fs' lastPath of
                   (False, fs'') \<Rightarrow> (False, fs'')
                 | (True, fs'') \<Rightarrow> (True, fs''))))"

text \<open>
  The directory a file is read from: the first directory of the search path
  that has it. \<open>has dir file\<close> says that the directory holds the file.
\<close>

definition resolve :: "PhysFS \<Rightarrow> (string \<Rightarrow> string \<Rightarrow> bool) \<Rightarrow> string \<Rightarrow> string option" where
  "resolve fs has file = find (\<lambda>dir. has dir file) (searchPath fs)"

text \<open>Both directories of the example hold the file \<open>zones.xml\<close>.\<close>

definition demo_has :: "string \<Rightarrow> string \<Rightarrow> bool" where
  "demo_has dir file \<longleftrightarrow> file = ''zones.xml''"

text \<open>
  The claim of the specification: after the paths have been added to an
  empty store, a file is looked up in the paths in the order they were
  listed.
\<close>

definition lookup_in_listed_order ::
  "bool \<Rightarrow> string list \<Rightarrow> (string \<Rightarrow> string \<Rightarrow> bool) \<Rightarrow> string \<Rightarrow> bool" where
  "lookup_in_listed_order append_default paths has file \<longleftrightarrow>
     resolve (snd (AddSearchPaths append_default (\<lambda>dir. True) (\<lambda>dir. True)
                     \<lparr>searchPath = [], writeDir = None\<rparr> paths)) has file
       = find (\<lambda>dir. has dir file) paths"

section \<open>Operational change-sets (DatabaseMariaDB.cpp)\<close>

text \<open>
  A value bound to a placeholder of a query (DatabaseBind.cpp); floating
  point values are held by their bits.
\<close>

datatype DatabaseBind =
  DatabaseBindText string
  | DatabaseBindBlob "u8 list"
  | DatabaseBindUUID UUID
  | DatabaseBindInt "32 word"
  | DatabaseBindBigInt "64 word"
  | DatabaseBindFloat "32 word"
  | DatabaseBindDouble "64 word"
  | DatabaseBindBool bool

text \<open>
  A persistent object as the change-set sees it: its address (the shared
  pointer), its UUID and the name of its metadata, which is the table.
\<close>

record DBObject =
  obj_addr :: nat
  obj_UUID :: UUID
  obj_Name :: string

text \<open>
  Modelled from the spec: an explicit update (DatabaseChangeSet.h is not among
  the sources) carries its record, a map from a column to its expected value
  and a map from a column to its new value. The maps are lists in the order
  they are iterated; a column occurs once.
\<close>

record DBExplicitUpdate =
  GetRecord :: DBObject
  GetExpectedValues :: "(string \<times> DatabaseBind) list"
  GetChanges :: "(string \<times> DatabaseBind) list"


text \<open>
  The statement \<open>UPDATE `table` SET `c` = :i, ... WHERE `UID` = :u AND `c` = :j
  AND ...;\<close> by its parts: every clause is a column with the number of its
  placeholder.
\<close>

record UpdateStatement =
  sql_table :: string
  sql_set :: "(string \<times> nat) list"
  sql_where_uid :: nat
  sql_where :: "(string \<times> nat) list"

text \<open>
  What the backend asks of the database connection, and what the connection
  answers: whether the call succeeded and, for an execution, the number of
  affected rows. The connection is outside the sources; its answer to a call
  may depend on all the calls before it.
\<close>

datatype DbCall =
  Autocommit bool
  | Commit
  | Rollback
  | Prepare UpdateStatement
  | Bind nat DatabaseBind
  | Execute
  | InsertSingleObject DBObject
  | UpdateSingleObject DBObject
  | DeleteSingleObject DBObject
  | LoadSingleObject string UUID

record Reply =
  succeeded :: bool
  AffectedRowCount :: int

type_synonym connection = "DbCall list \<Rightarrow> DbCall \<Rightarrow> Reply"

text \<open>A call: the answer, and the log of calls with the call added.\<close>

definition db_call :: "connection \<Rightarrow> DbCall list \<Rightarrow> DbCall \<Rightarrow> Reply \<times> DbCall list" where
  "db_call conn log c = (conn log c, log @ [c])"

text \<open>
  The loops that bind a list of values to the placeholders \<open>idx\<close>,
  \<open>idx + 1\<close>, ...: the first bind that fails ends the loop.
\<close>

fun bind_values :: "connection \<Rightarrow> DbCall list \<Rightarrow> nat \<Rightarrow> DatabaseBind list \<Rightarrow> bool \<times> DbCall list" where
  "bind_values conn log idx [] = (True, log)"
| "bind_values conn log idx (v # vs) =
     (case db_call conn log (Bind idx v) of
        (r, log1) \<Rightarrow> if \<not> succeeded r then (False, log1) else bind_values conn log1 (Suc idx) vs)"

text \<open>The statement \<open>ProcessExplicitUpdate\<close> builds for an update.\<close>

definition explicit_update_sql :: "DBExplicitUpdate \<Rightarrow> UpdateStatement" where
  "explicit_update_sql update =
     (let columns = map fst (GetChanges update); n = length columns
      in \<lparr>sql_table = obj_Name (GetRecord update),
          sql_set = zip columns [0 ..< n],
          sql_where_uid = n,
          sql_where = zip columns [Suc n ..< Suc (2 * n)]\<rparr>)"

text \<open>
  \<open>ProcessExplicitUpdate(update)\<close>: the result and the log of calls.
  \<open>expectedVals[column]\<close> is the value the first loop found.
\<close>

definition ProcessExplicitUpdate ::
  "connection \<Rightarrow> DbCall list \<Rightarrow> DBExplicitUpdate \<Rightarrow> bool \<times> DbCall list" where
  "ProcessExplicitUpdate conn log update =
     (let obj = GetRecord update;
          expectedVals = GetExpectedValues update;
          changedVals = GetChanges update
      in if length changedVals = 0 then (False, log)
         else if \<exists>cPair \<in> set changedVals. map_of expectedVals (fst cPair) = None then (False, log)
         else
           (case db_call conn log (Prepare (explicit_update_sql update)) of
              (query, log1) \<Rightarrow>
                if \<not> succeeded query then (False, log1)
                else
                  (case bind_values conn log1 0 (map snd changedVals) of
                     (False, log2) \<Rightarrow> (False, log2)
                   | (True, log2) \<Rightarrow>
                       (case db_call conn log2 (Bind (length changedVals) (DatabaseBindUUID (obj_UUID obj))) of
                          (uid, log3) \<Rightarrow>
                            if \<not> succeeded uid then (False, log3)
                            else
                              (case bind_values conn log3 (Suc (length changedVals))
                                      (map (\<lambda>cPair. the (map_of expectedVals (fst cPair))) changedVals) of
                                 (False, log4) \<Rightarrow> (False, log4)
                               | (True, log4) \<Rightarrow>
                                   (case db_call conn log4 Execute of
                                      (executed, log5) \<Rightarrow>
                                        if \<not> succeeded executed then (False, log5)
                                        else (AffectedRowCount executed = 1, log5)))))))"







text \<open>
  A connection for the examples: every call succeeds, and an execution
  affects one row when the value 100 has been bound to the placeholder of the
  WHERE clause (the row has \<open>Hp = 100\<close>), no row otherwise. An update
  of \<open>Hp\<close> from 100 to 80, the same update with the stale expectation 90,
  one with an expected value for another column only, and one with an
  expected value too many.
\<close>

definition demo_connection :: connection where
  "demo_connection log c =
     \<lparr>succeeded = True,
      AffectedRowCount = (if c = Execute \<and> Bind 2 (DatabaseBindInt 100) \<in> set log then 1 else 0)\<rparr>"

definition demo_character :: DBObject where
  "demo_character = \<lparr>obj_addr = 1, obj_UUID = 5, obj_Name = ''Character''\<rparr>"

definition demo_update :: DBExplicitUpdate where
  "demo_update = \<lparr>GetRecord = demo_character,
     GetExpectedValues = [(''Hp'', DatabaseBindInt 100)],
     GetChanges = [(''Hp'', DatabaseBindInt 80)]\<rparr>"


definition demo_unexpected_update :: DBExplicitUpdate where
  "demo_unexpected_update = demo_update\<lparr>GetExpectedValues := [(''Mp'', DatabaseBindInt 7)]\<rparr>"


text \<open>
  The claim of the specification for the cursor operations: the operation
  fails exactly when the requested position lies outside \<open>[0, size]\<close>.
  \<open>Skip\<close> and \<open>Rewind\<close> request \<open>position + n\<close> and \<open>position - n\<close> as integers.
\<close>

definition seek_fails_iff_outside_size :: "u32 \<Rightarrow> ReadOnlyPacket \<Rightarrow> u32 \<Rightarrow> bool" where
  "seek_fails_iff_outside_size mx p pos =
     (Seek mx p pos = Inl PacketException \<longleftrightarrow> unat pos > unat (mSize p))"

section \<open>Cursor operations\<close>

lemma Seek_fails_iff: "Seek mx p pos = Inl PacketException \<longleftrightarrow> unat mx < unat pos"
  by (simp add: Seek_def word_less_nat_alt)

lemma Seek_ok_iff: "Seek mx p pos = Inr q \<longleftrightarrow> unat pos \<le> unat mx \<and> q = p\<lparr>mPosition := pos\<rparr>"
  by (auto simp: Seek_def word_less_nat_alt)

lemma Skip_fails_iff:
  assumes "unat (mPosition p) + unat sz < 2 ^ 32"
  shows "Skip mx p sz = Inl PacketException \<longleftrightarrow>
         sz \<noteq> 0 \<and> unat mx < unat (mPosition p) + unat sz"
proof -
  have "unat (mPosition p + sz) = unat (mPosition p) + unat sz"
    using assms by (simp add: unat_word_ariths)
  then show ?thesis
    by (auto simp: Skip_def word_less_nat_alt)
qed

lemma Skip_ok_position:
  assumes "unat (mPosition p) + unat sz < 2 ^ 32" and "Skip mx p sz = Inr q"
  shows "unat (mPosition q) = unat (mPosition p) + unat sz"
  using assms by (auto simp: Skip_def unat_word_ariths split: if_splits)

lemma Rewind_fails_iff:
  "Rewind p bytes = Inl PacketException \<longleftrightarrow> unat (mPosition p) < unat bytes"
  by (auto simp: Rewind_def word_less_nat_alt)

lemma Rewind_ok_position:
  assumes "Rewind p bytes = Inr q"
  shows "unat (mPosition q) = unat (mPosition p) - unat bytes"
  using assms
  by (auto simp: Rewind_def unat_sub word_le_nat_alt not_less split: if_splits)

text \<open>
  C6, as stated, fails: a seek beyond the valid bytes of a packet succeeds as
  long as it stays within the capacity. An empty packet with capacity 16384
  accepts \<open>Seek(1)\<close>.
\<close>

theorem C6_seek_past_size_counterexample:
  "\<not> seek_fails_iff_outside_size 16384 \<lparr>mPosition = 0, mSize = 0, mData = []\<rparr> 1"
  by (simp add: seek_fails_iff_outside_size_def Seek_def)

text \<open>
  C6, amended: the bound of the cursor is the capacity \<open>MAX_PACKET_SIZE\<close>, not
  the size. \<open>Seek(pos)\<close> fails exactly when \<open>pos\<close> exceeds the capacity;
  \<open>Skip(sz)\<close>, when \<open>position + sz\<close> fits in 32 bits, fails exactly when
  \<open>sz\<close> is not zero and \<open>position + sz\<close> exceeds the capacity; \<open>Rewind(bytes)\<close> fails exactly when
  \<open>bytes\<close> exceeds the position. An operation that does not fail sets the
  position to the requested value and changes nothing else.
\<close>

theorem C6_cursor_bounds:
  "(Seek mx p pos = Inl PacketException \<longleftrightarrow> unat mx < unat pos) \<and>
   (unat pos \<le> unat mx \<longrightarrow> Seek mx p pos = Inr (p\<lparr>mPosition := pos\<rparr>)) \<and>
   (unat (mPosition p) + unat sz < 2 ^ 32 \<longrightarrow>
      (Skip mx p sz = Inl PacketException \<longleftrightarrow>
         sz \<noteq> 0 \<and> unat mx < unat (mPosition p) + unat sz) \<and>
      (unat (mPosition p) + unat sz \<le> unat mx \<longrightarrow>
         (\<exists>q. Skip mx p sz = Inr q \<and> unat (mPosition q) = unat (mPosition p) + unat sz \<and>
              mSize q = mSize p \<and> mData q = mData p))) \<and>
   (Rewind p bytes = Inl PacketException \<longleftrightarrow> unat (mPosition p) < unat bytes) \<and>
   (unat bytes \<le> unat (mPosition p) \<longrightarrow>
      (\<exists>q. Rewind p bytes = Inr q \<and> unat (mPosition q) = unat (mPosition p) - unat bytes \<and>
           mSize q = mSize p \<and> mData q = mData p))"
proof (intro conjI impI)
  show "Seek mx p pos = Inl PacketException \<longleftrightarrow> unat mx < unat pos"
    by (rule Seek_fails_iff)
  show "Seek mx p pos = Inr (p\<lparr>mPosition := pos\<rparr>)" if "unat pos \<le> unat mx"
    using that by (simp add: Seek_ok_iff)
  show "Skip mx p sz = Inl PacketException \<longleftrightarrow>
          sz \<noteq> 0 \<and> unat mx < unat (mPosition p) + unat sz"
    if "unat (mPosition p) + unat sz < 2 ^ 32"
    using that by (rule Skip_fails_iff)
  show "\<exists>q. Skip mx p sz = Inr q \<and> unat (mPosition q) = unat (mPosition p) + unat sz \<and>
            mSize q = mSize p \<and> mData q = mData p"
    if a: "unat (mPosition p) + unat sz < 2 ^ 32" and b: "unat (mPosition p) + unat sz \<le> unat mx"
  proof -
    have "unat (mPosition p + sz) = unat (mPosition p) + unat sz"
      using a by (simp add: unat_word_ariths)
    then show ?thesis
      using b by (auto simp: Skip_def word_less_nat_alt)
  qed
  show "Rewind p bytes = Inl PacketException \<longleftrightarrow> unat (mPosition p) < unat bytes"
    by (rule Rewind_fails_iff)
  show "\<exists>q. Rewind p bytes = Inr q \<and> unat (mPosition q) = unat (mPosition p) - unat bytes \<and>
            mSize q = mSize p \<and> mData q = mData p"
    if "unat bytes \<le> unat (mPosition p)"
    using that by (auto simp: Rewind_def unat_sub word_le_nat_alt word_less_nat_alt)
qed

theorem C6_cursor_bounds_witness:
  "Seek 16384 \<lparr>mPosition = 2, mSize = 4, mData = [1, 2, 3, 4]\<rparr> 3 =
     Inr \<lparr>mPosition = 3, mSize = 4, mData = [1, 2, 3, 4]\<rparr> \<and>
   (\<exists>q. Skip 16384 \<lparr>mPosition = 2, mSize = 4, mData = [1, 2, 3, 4]\<rparr> 2 = Inr q \<and>
        unat (mPosition q) = 4) \<and>
   (\<exists>q. Rewind \<lparr>mPosition = 2, mSize = 4, mData = [1, 2, 3, 4]\<rparr> 2 = Inr q \<and>
        unat (mPosition q) = 0)"
proof -
  let ?p = "\<lparr>mPosition = 2, mSize = 4, mData = [1, 2, 3, 4]\<rparr>"
  have a: "unat (3 :: u32) \<le> unat (16384 :: u32)" by simp
  have b: "unat (mPosition ?p) + unat (2 :: u32) < 2 ^ 32" by simp
  have c: "unat (mPosition ?p) + unat (2 :: u32) \<le> unat (16384 :: u32)" by simp
  have d: "unat (2 :: u32) \<le> unat (mPosition ?p)" by simp
  have e: "unat (mPosition ?p) + unat (2 :: u32) = 4" "unat (mPosition ?p) - unat (2 :: u32) = 0"
    by simp_all
  from C6_cursor_bounds[of 16384 ?p 3 2 2] a b c d
  have "Seek 16384 ?p 3 = Inr (?p\<lparr>mPosition := 3\<rparr>)"
    and "\<exists>q. Skip 16384 ?p 2 = Inr q \<and> unat (mPosition q) = unat (mPosition ?p) + unat (2 :: u32) \<and>
              mSize q = mSize ?p \<and> mData q = mData ?p"
    and "\<exists>q. Rewind ?p 2 = Inr q \<and> unat (mPosition q) = unat (mPosition ?p) - unat (2 :: u32) \<and>
              mSize q = mSize ?p \<and> mData q = mData ?p"
    by blast+
  then show ?thesis unfolding e by auto
qed

section \<open>Splitting a frame into commands\<close>

lemma unat_of_nat32: "n < 2 ^ 32 \<Longrightarrow> unat (of_nat n :: u32) = n"
  by (simp add: unat_of_nat)

lemma unat_of_nat16: "n < 2 ^ 16 \<Longrightarrow> unat (of_nat n :: u16) = n"
  by (simp add: unat_of_nat)

lemma le16_bytes: "le16 (ucast w) (ucast (drop_bit 8 w)) = w"
  unfolding le16_def
  by (rule bit_word_eqI) (auto simp: bit_simps)

lemma ucast16_32: "unat (ucast (w :: u16) :: u32) = unat w"
proof -
  have "unat w < 2 ^ 32"
    using unsigned_less[of w, where ?'a = nat] by simp
  then show ?thesis by (simp add: unsigned_ucast_eq take_bit_nat_eq_self)
qed

text \<open>Packet operations at a cursor given as a natural number.\<close>

lemma Left_at:
  assumes "mPosition p = of_nat n" "mSize p = of_nat sz" "n \<le> sz" "sz < 2 ^ 32"
  shows "unat (Left p) = sz - n"
proof -
  have "Left p = of_nat (sz - n)" using assms by (simp add: Left_def of_nat_diff)
  moreover have "unat (of_nat (sz - n) :: u32) = sz - n"
    using assms by (intro unat_of_nat32) simp
  ultimately show ?thesis by simp
qed

lemma Skip_at:
  assumes "mPosition p = of_nat n" "n + k \<le> unat mx"
  shows "Skip mx p (of_nat k) = Inr (p\<lparr>mPosition := of_nat (n + k)\<rparr>)"
proof -
  have lt: "n + k < 2 ^ 32" using assms(2) unsigned_less[of mx, where ?'a = nat] by simp
  have "unat (of_nat (n + k) :: u32) = n + k" using lt by (rule unat_of_nat32)
  then have "\<not> mx < of_nat (n + k)" using assms(2) by (simp add: word_less_nat_alt)
  moreover have "(of_nat k :: u32) = 0 \<Longrightarrow> k = 0"
    using lt by (metis add_lessD1 add.commute unat_of_nat32 unat_0)
  ultimately show ?thesis using assms(1) by (auto simp: Skip_def)
qed

lemma ReadU16Little_at:
  assumes "mPosition p = of_nat n" "mSize p = of_nat sz" "n + 2 \<le> sz" "sz \<le> unat mx"
    "sz \<le> length (mData p)"
  shows "ReadU16Little mx p = Inr (le16 (mData p ! n) (mData p ! (n + 1)), p\<lparr>mPosition := of_nat (n + 2)\<rparr>)"
proof -
  have lt: "sz < 2 ^ 32" using assms(4) unsigned_less[of mx, where ?'a = nat] by simp
  have a: "unat (of_nat n + 2 :: u32) = n + 2"
  proof -
    have "(of_nat n + 2 :: u32) = of_nat (n + 2)" by simp
    moreover have "unat (of_nat (n + 2) :: u32) = n + 2"
      using lt assms(3) by (intro unat_of_nat32) simp
    ultimately show ?thesis by (simp only:)
  qed
  have b: "unat (of_nat sz :: u32) = sz" using lt by (simp add: unat_of_nat32)
  have c: "\<not> (of_nat sz :: u32) < of_nat n + 2"
    using a b assms(3) by (simp add: word_less_nat_alt)
  have s: "Skip mx p (of_nat 2) = Inr (p\<lparr>mPosition := of_nat (n + 2)\<rparr>)"
    using assms by (intro Skip_at) auto
  have n0: "unat (of_nat n :: u32) = n" using lt assms(3) by (simp add: unat_of_nat32)
  have n1: "unat (of_nat n + 1 :: u32) = n + 1"
  proof -
    have "(of_nat n + 1 :: u32) = of_nat (n + 1)" by simp
    moreover have "unat (of_nat (n + 1) :: u32) = n + 1"
      using lt assms(3) by (intro unat_of_nat32) simp
    ultimately show ?thesis by (simp only:)
  qed
  have "byte_at p (of_nat n) = mData p ! n" "byte_at p (of_nat n + 1) = mData p ! (n + 1)"
    using n0 n1 assms by (auto simp: byte_at_def)
  then show ?thesis using c s assms(1,2) by (simp add: ReadU16Little_def)
qed


lemma length_command_bytes: "length (command_bytes c) = length (cmd_payload c) + 6"
  by (simp add: command_bytes_def bytes_le16_def)

lemma ParsePacket_loop_step:
  assumes ok: "command_ok c"
    and data: "mData copy = pre @ command_bytes c @ rest"
    and pos: "mPosition copy = of_nat (length pre)"
    and size: "mSize copy = of_nat sz" "sz \<le> unat mx"
    and sz: "sz = length pre + length (command_bytes c) + k" "k \<le> length rest"
    and pad: "unat padding \<le> k"
    and queue: "mMessageQueue conn = Some q"
  shows "ParsePacket_loop mx padding conn copy =
         ParsePacket_loop mx padding
           (conn\<lparr>mMessageQueue := Some (q @ [Message_Packet (self conn) (cmd_code c)
               \<lparr>mPosition = 0, mSize = of_nat (length (cmd_payload c)),
                mData = drop (length pre + 6) (mData copy)\<rparr>])\<rparr>)
           (copy\<lparr>mPosition := of_nat (length pre + length (command_bytes c))\<rparr>)"
proof -
  define n where "n = length pre"
  define lp where "lp = length (cmd_payload c)"
  have lc: "length (command_bytes c) = lp + 6" by (simp add: length_command_bytes lp_def)
  have szn: "sz = n + lp + 6 + k" using sz lc by (simp add: n_def)
  have lt: "sz < 2 ^ 32" using size(2) unsigned_less[of mx, where ?'a = nat] by simp
  have len: "sz \<le> length (mData copy)" using data sz by simp
  have lp16: "lp + 4 < 2 ^ 16" using ok by (simp add: command_ok_def lp_def)
  have L: "unat (Left copy) = lp + 6 + k"
    using Left_at[OF pos size(1) _ lt] szn by (simp add: n_def)
  have g1: "Left copy > padding" using L pad by (simp add: word_less_nat_alt)
  have g2: "\<not> Left copy < 6" using L by (simp add: word_less_nat_alt)
  define c1 where "c1 = copy\<lparr>mPosition := of_nat (n + 2)\<rparr>"
  define c2 where "c2 = copy\<lparr>mPosition := of_nat (n + 4)\<rparr>"
  define c3 where "c3 = copy\<lparr>mPosition := of_nat (n + 6)\<rparr>"
  define c4 where "c4 = copy\<lparr>mPosition := of_nat (n + (lp + 6))\<rparr>"
  have s1: "Skip mx copy 2 = Inr c1"
    using Skip_at[of copy n 2 mx] pos szn size(2) by (simp add: n_def c1_def)
  define cs :: u16 where "cs = of_nat (lp + 4)"
  have dd: "mData copy = pre @ [cmd_hint0 c, cmd_hint1 c, ucast cs, ucast (drop_bit 8 cs),
              ucast (cmd_code c), ucast (drop_bit 8 (cmd_code c))] @ cmd_payload c @ rest"
    by (simp add: data command_bytes_def bytes_le16_def lp_def cs_def)
  have d2: "mData copy ! (n + 2) = ucast cs"
    and d3: "mData copy ! (n + 2 + 1) = ucast (drop_bit 8 cs)"
    and d4: "mData copy ! (n + 4) = ucast (cmd_code c)"
    and d5: "mData copy ! (n + 4 + 1) = ucast (drop_bit 8 (cmd_code c))"
    by (simp_all add: dd n_def nth_append)
  have r1: "ReadU16Little mx c1 = Inr (cs, c2)"
  proof -
    have "ReadU16Little mx c1 = Inr (le16 (mData c1 ! (n + 2)) (mData c1 ! (n + 2 + 1)),
            c1\<lparr>mPosition := of_nat (n + 2 + 2)\<rparr>)"
      using size szn len by (intro ReadU16Little_at[where sz = sz]) (simp_all add: c1_def)
    moreover have "mData c1 = mData copy" by (simp add: c1_def)
    moreover have "c1\<lparr>mPosition := of_nat (n + 2 + 2)\<rparr> = c2" by (simp add: c1_def c2_def)
    ultimately show ?thesis
      by (simp only: d2 d3 le16_bytes)
  qed
  have r2: "ReadU16Little mx c2 = Inr (cmd_code c, c3)"
  proof -
    have "ReadU16Little mx c2 = Inr (le16 (mData c2 ! (n + 4)) (mData c2 ! (n + 4 + 1)),
            c2\<lparr>mPosition := of_nat (n + 4 + 2)\<rparr>)"
      using size szn len by (intro ReadU16Little_at[where sz = sz]) (simp_all add: c2_def)
    moreover have "mData c2 = mData copy" by (simp add: c2_def)
    moreover have "c2\<lparr>mPosition := of_nat (n + 4 + 2)\<rparr> = c3" by (simp add: c2_def c3_def)
    ultimately show ?thesis
      by (simp only: d4 d5 le16_bytes)
  qed
  have ucs: "unat cs = lp + 4" unfolding cs_def using lp16 by (rule unat_of_nat16)
  have g3: "\<not> cs < 4" using ucs by (simp add: word_less_nat_alt)
  have w: "(ucast cs :: u32) = of_nat (lp + 4)"
  proof -
    have "unat (ucast cs :: u32) = lp + 4" using ucs by (simp only: ucast16_32)
    moreover have "unat (of_nat (lp + 4) :: u32) = lp + 4" using lp16 by (intro unat_of_nat32) simp
    ultimately show ?thesis by (simp only: word_unat_eq_iff)
  qed
  have w4: "(ucast cs :: u32) - 4 = of_nat lp" by (simp only: w) simp
  have ulp: "unat (of_nat lp :: u32) = lp" using lp16 by (intro unat_of_nat32) simp
  have L3: "unat (Left c3) = lp + k"
  proof -
    have "unat (Left c3) = sz - (n + 6)"
      using size(1) szn lt by (intro Left_at) (simp_all add: c3_def)
    then show ?thesis using szn by simp
  qed
  have g4: "\<not> Left c3 < ucast cs - 4"
    using L3 ulp by (simp only: w4) (simp add: word_less_nat_alt)
  have un6: "unat (of_nat (n + 6) :: u32) = n + 6" using lt szn by (intro unat_of_nat32) simp
  have v: "ReadOnlyPacket_view c3 (Tell c1 + 4) (ucast cs - 4) =
           Inr \<lparr>mPosition = 0, mSize = of_nat lp, mData = drop (n + 6) (mData copy)\<rparr>"
  proof -
    have t: "Tell c1 + 4 = of_nat (n + 6)" by (simp add: Tell_def c1_def)
    have "unat (of_nat (n + 6 + lp) :: u32) = n + 6 + lp" using lt szn by (intro unat_of_nat32) simp
    moreover have "unat (of_nat sz :: u32) = sz" using lt by (rule unat_of_nat32)
    moreover have "(of_nat (n + 6) :: u32) + of_nat lp = of_nat (n + 6 + lp)" by simp
    ultimately have "\<not> (of_nat (n + 6) :: u32) + of_nat lp > mSize c3"
      using szn size(1) by (simp only: word_less_nat_alt c3_def) simp
    then show ?thesis
      using un6 by (simp only: t w4 ReadOnlyPacket_view_def) (simp add: c3_def)
  qed
  have sk: "Seek mx c3 (Tell c1 + ucast cs) = Inr c4"
  proof -
    have t: "Tell c1 + ucast cs = of_nat (n + (lp + 6))"
      by (simp only: w) (simp add: Tell_def c1_def)
    have "unat (of_nat (n + (lp + 6)) :: u32) = n + (lp + 6)"
      using lt szn by (intro unat_of_nat32) simp
    then have "\<not> mx < of_nat (n + (lp + 6))"
      using szn size(2) by (simp add: word_less_nat_alt)
    then show ?thesis by (simp only: t Seek_def) (simp add: c3_def c4_def)
  qed
  show ?thesis
    apply (subst ParsePacket_loop.simps)
    apply (simp only: g1 g2 s1 r1 r2 g3 g4 v sk queue Let_def if_True if_False not_True_eq_False
             sum.case prod.case option.case simp_thms)
    apply (simp add: n_def lp_def c4_def lc)
    done
qed


lemma ParsePacket_loop_commands:
  assumes "\<forall>c\<in>set cmds. command_ok c"
    and "mData copy = pre @ concat (map command_bytes cmds) @ rest"
    and "mPosition copy = of_nat (length pre)"
    and "mSize copy = of_nat sz" "sz \<le> unat mx"
    and "sz = length pre + length (concat (map command_bytes cmds)) + k" "k \<le> length rest"
    and "unat padding \<le> k"
    and "mMessageQueue conn = Some q"
  shows "\<exists>msgs. ParsePacket_loop mx padding conn copy =
           ParsePacket_loop mx padding (conn\<lparr>mMessageQueue := Some (q @ msgs)\<rparr>)
             (copy\<lparr>mPosition := of_nat (length pre + length (concat (map command_bytes cmds)))\<rparr>) \<and>
           map delivered msgs = map (\<lambda>c. Some (self conn, cmd_code c, cmd_payload c)) cmds"
  using assms
proof (induction cmds arbitrary: pre conn q copy)
  case Nil
  have "conn\<lparr>mMessageQueue := Some (q @ [])\<rparr> = conn" using Nil.prems(9) by simp
  moreover have "copy\<lparr>mPosition := of_nat (length pre)\<rparr> = copy" using Nil.prems(3) by simp
  ultimately show ?case by (intro exI[of _ "[]"]) simp
next
  case (Cons c cs)
  define tl where "tl = concat (map command_bytes cs)"
  define m where "m = Message_Packet (self conn) (cmd_code c)
      \<lparr>mPosition = 0, mSize = of_nat (length (cmd_payload c)),
       mData = drop (length pre + 6) (mData copy)\<rparr>"
  define conn1 where "conn1 = conn\<lparr>mMessageQueue := Some (q @ [m])\<rparr>"
  define copy1 where "copy1 = copy\<lparr>mPosition := of_nat (length pre + length (command_bytes c))\<rparr>"
  have lt: "sz < 2 ^ 32" using Cons.prems(5) unsigned_less[of mx, where ?'a = nat] by simp
  have okc: "command_ok c" and oks: "\<forall>c\<in>set cs. command_ok c" using Cons.prems(1) by simp_all
  have data: "mData copy = pre @ command_bytes c @ (tl @ rest)"
    using Cons.prems(2) by (simp add: tl_def)
  have step: "ParsePacket_loop mx padding conn copy = ParsePacket_loop mx padding conn1 copy1"
    unfolding conn1_def copy1_def m_def
    using okc data Cons.prems(3,4,5) _ _ _ Cons.prems(9)
  proof (rule ParsePacket_loop_step[where k = "length tl + k"])
    show "sz = length pre + length (command_bytes c) + (length tl + k)"
      using Cons.prems(6) by (simp add: tl_def)
    show "length tl + k \<le> length (tl @ rest)" using Cons.prems(7) by simp
    show "unat padding \<le> length tl + k" using Cons.prems(8) by simp
  qed
  have "\<exists>msgs. ParsePacket_loop mx padding conn1 copy1 =
           ParsePacket_loop mx padding (conn1\<lparr>mMessageQueue := Some ((q @ [m]) @ msgs)\<rparr>)
             (copy1\<lparr>mPosition := of_nat (length (pre @ command_bytes c) + length (concat (map command_bytes cs)))\<rparr>) \<and>
           map delivered msgs = map (\<lambda>c. Some (self conn1, cmd_code c, cmd_payload c)) cs"
  proof (rule Cons.IH)
    show "\<forall>c\<in>set cs. command_ok c" by (rule oks)
    show "mData copy1 = (pre @ command_bytes c) @ concat (map command_bytes cs) @ rest"
      using data by (simp add: copy1_def tl_def)
    show "mPosition copy1 = of_nat (length (pre @ command_bytes c))" by (simp add: copy1_def)
    show "mSize copy1 = of_nat sz" using Cons.prems(4) by (simp add: copy1_def)
    show "sz \<le> unat mx" by (rule Cons.prems(5))
    show "sz = length (pre @ command_bytes c) + length (concat (map command_bytes cs)) + k"
      using Cons.prems(6) by simp
    show "k \<le> length rest" by (rule Cons.prems(7))
    show "unat padding \<le> k" by (rule Cons.prems(8))
    show "mMessageQueue conn1 = Some (q @ [m])" by (simp add: conn1_def)
  qed
  then obtain msgs where
    r: "ParsePacket_loop mx padding conn1 copy1 =
           ParsePacket_loop mx padding (conn1\<lparr>mMessageQueue := Some ((q @ [m]) @ msgs)\<rparr>)
             (copy1\<lparr>mPosition := of_nat (length (pre @ command_bytes c) + length (concat (map command_bytes cs)))\<rparr>)"
    and d: "map delivered msgs = map (\<lambda>c. Some (self conn1, cmd_code c, cmd_payload c)) cs"
    by blast
  have c1: "conn1\<lparr>mMessageQueue := Some ((q @ [m]) @ msgs)\<rparr> = conn\<lparr>mMessageQueue := Some (q @ (m # msgs))\<rparr>"
    by (simp add: conn1_def)
  have c2: "copy1\<lparr>mPosition := of_nat (length (pre @ command_bytes c) + length (concat (map command_bytes cs)))\<rparr>
      = copy\<lparr>mPosition := of_nat (length pre + length (concat (map command_bytes (c # cs))))\<rparr>"
    by (simp add: copy1_def)
  have pay: "ConstData \<lparr>mPosition = 0, mSize = of_nat (length (cmd_payload c)),
       mData = drop (length pre + 6) (mData copy)\<rparr> = cmd_payload c"
  proof -
    have "length (cmd_payload c) + 4 < 2 ^ 16" using okc by (simp add: command_ok_def)
    then have "unat (of_nat (length (cmd_payload c)) :: u32) = length (cmd_payload c)"
      by (intro unat_of_nat32) simp
    moreover have "drop (length pre + 6) (mData copy) = cmd_payload c @ tl @ rest"
      using data by (simp add: command_bytes_def bytes_le16_def)
    ultimately show ?thesis by (simp add: ConstData_def)
  qed
  have "delivered m = Some (self conn, cmd_code c, cmd_payload c)"
    unfolding m_def delivered.simps pay ..
  then have "map delivered (m # msgs) = map (\<lambda>c. Some (self conn, cmd_code c, cmd_payload c)) (c # cs)"
    using d by (simp add: conn1_def)
  moreover have "ParsePacket_loop mx padding conn copy =
      ParsePacket_loop mx padding (conn\<lparr>mMessageQueue := Some (q @ (m # msgs))\<rparr>)
        (copy\<lparr>mPosition := of_nat (length pre + length (concat (map command_bytes (c # cs))))\<rparr>)"
    using step r by (simp only: c1 c2)
  ultimately show ?case by blast
qed


text \<open>
  C1. A decrypted frame is its eight bytes of sizes, a sequence of well-formed
  commands and the padding. For every such frame that fits a packet, on a
  connection with a message queue, the receiver enqueues exactly one message
  per command, in the order of the commands in the frame; each message
  carries the connection, the little-endian \<open>commandCode\<close> and a view of
  exactly the \<open>commandSize - 4\<close> payload bytes. Nothing fails.
\<close>

theorem C1_commands_enqueued_in_order:
  assumes cmds_ok: "\<forall>c\<in>set cmds. command_ok c"
    and hdr: "length hdr = 8"
    and dec: "DecryptPacket env (mEncryptionKey conn) packet = decrypted"
    and data: "mData decrypted = hdr @ concat (map command_bytes cmds) @ pad @ junk"
    and size: "mSize decrypted = of_nat (8 + length (concat (map command_bytes cmds)) + length pad)"
    and cap: "8 + length (concat (map command_bytes cmds)) + length pad \<le> unat (MAX_PACKET_SIZE env)"
    and padding: "paddedSize - realSize = of_nat (length pad)"
    and queue: "mMessageQueue conn = Some q"
  shows "\<exists>msgs. ParsePacket_frame env conn packet paddedSize realSize =
                  (conn\<lparr>mMessageQueue := Some (q @ msgs)\<rparr>, None) \<and>
                map delivered msgs = map (\<lambda>c. Some (self conn, cmd_code c, cmd_payload c)) cmds"
proof -
  define mx where "mx = MAX_PACKET_SIZE env"
  define body where "body = concat (map command_bytes cmds)"
  define sz where "sz = 8 + length body + length pad"
  define copy where "copy = decrypted\<lparr>mPosition := of_nat (length hdr)\<rparr>"
  have lt: "sz < 2 ^ 32"
    using cap unsigned_less[of mx, where ?'a = nat] by (simp add: sz_def body_def mx_def)
  have upad: "unat (of_nat (length pad) :: u32) = length pad"
    using lt by (intro unat_of_nat32) (simp add: sz_def)
  have seek: "Seek mx decrypted 8 = Inr copy"
  proof -
    have "unat (8 :: u32) \<le> unat mx" using cap by (simp add: mx_def)
    then show ?thesis by (simp add: Seek_ok_iff copy_def hdr)
  qed
  obtain msgs where
    loop: "ParsePacket_loop mx (of_nat (length pad)) conn copy =
           ParsePacket_loop mx (of_nat (length pad)) (conn\<lparr>mMessageQueue := Some (q @ msgs)\<rparr>)
             (copy\<lparr>mPosition := of_nat (length hdr + length (concat (map command_bytes cmds)))\<rparr>)"
    and del: "map delivered msgs = map (\<lambda>c. Some (self conn, cmd_code c, cmd_payload c)) cmds"
  proof -
    have "\<exists>msgs. ParsePacket_loop mx (of_nat (length pad)) conn copy =
           ParsePacket_loop mx (of_nat (length pad)) (conn\<lparr>mMessageQueue := Some (q @ msgs)\<rparr>)
             (copy\<lparr>mPosition := of_nat (length hdr + length (concat (map command_bytes cmds)))\<rparr>) \<and>
           map delivered msgs = map (\<lambda>c. Some (self conn, cmd_code c, cmd_payload c)) cmds"
    proof (rule ParsePacket_loop_commands[where rest = "pad @ junk" and k = "length pad" and sz = sz])
      show "\<forall>c\<in>set cmds. command_ok c" by (rule cmds_ok)
      show "mData copy = hdr @ concat (map command_bytes cmds) @ pad @ junk"
        using data by (simp add: copy_def)
      show "mPosition copy = of_nat (length hdr)" by (simp add: copy_def)
      show "mSize copy = of_nat sz" using size by (simp add: copy_def sz_def body_def)
      show "sz \<le> unat mx" using cap by (simp add: sz_def body_def mx_def)
      show "sz = length hdr + length (concat (map command_bytes cmds)) + length pad"
        by (simp add: sz_def body_def hdr)
      show "length pad \<le> length (pad @ junk)" by simp
      show "unat (of_nat (length pad) :: u32) \<le> length pad" using upad by simp
      show "mMessageQueue conn = Some q" by (rule queue)
    qed
    then show ?thesis using that by blast
  qed
  define conn1 where "conn1 = conn\<lparr>mMessageQueue := Some (q @ msgs)\<rparr>"
  define copy1 where "copy1 = copy\<lparr>mPosition := of_nat (8 + length body)\<rparr>"
  have c1: "copy\<lparr>mPosition := of_nat (length hdr + length (concat (map command_bytes cmds)))\<rparr> = copy1"
    by (simp add: copy1_def hdr body_def)
  have p1: "mPosition copy1 = of_nat (8 + length body)" by (simp add: copy1_def)
  have s1: "mSize copy1 = of_nat sz" using size by (simp add: copy1_def copy_def sz_def body_def)
  have L1: "unat (Left copy1) = length pad"
    using Left_at[OF p1 s1 _ lt] by (simp add: sz_def)
  have fin: "ParsePacket_loop mx (of_nat (length pad)) conn1 copy1 = (conn1, copy1, Done)"
  proof -
    have "\<not> Left copy1 > of_nat (length pad)" using L1 upad by (simp add: word_less_nat_alt)
    then show ?thesis by (subst ParsePacket_loop.simps) simp
  qed
  define copy2 where "copy2 = copy1\<lparr>mPosition := of_nat (8 + length body + length pad)\<rparr>"
  have skip: "Skip mx copy1 (of_nat (length pad)) = Inr copy2"
    unfolding copy2_def using p1
  proof (rule Skip_at)
    show "8 + length body + length pad \<le> unat mx" using cap by (simp add: body_def mx_def)
  qed
  have L2: "Left copy2 = 0" using s1 by (simp add: Left_def copy2_def sz_def)
  have "ParsePacket_frame env conn packet paddedSize realSize = (conn1, None)"
    unfolding ParsePacket_frame_def
    by (simp only: dec padding Let_def mx_def[symmetric] seek sum.case loop c1
          conn1_def[symmetric] fin prod.case loop_exit.case skip L2 if_False simp_thms)
  then show ?thesis using del by (auto simp: conn1_def)
qed


lemma demo_frame_bytes:
  "mData demo_frame = [0, 0, 0, 17, 0, 0, 0, 15] @ concat (map command_bytes [demo_chat, demo_keepalive]) @ [0, 0] @ []"
  by (simp add: demo_frame_def)

theorem C1_commands_enqueued_in_order_witness:
  "\<exists>msgs. ParsePacket_frame demo_env demo_conn demo_frame 17 15 =
            (demo_conn\<lparr>mMessageQueue := Some ([] @ msgs)\<rparr>, None) \<and>
          map delivered msgs = [Some (1, 0x26, [104, 105]), Some (1, 0x56, [7])]"
proof -
  have 1: "\<forall>c\<in>set [demo_chat, demo_keepalive]. command_ok c"
    by (simp add: command_ok_def demo_chat_def demo_keepalive_def)
  have 2: "length [0 :: u8, 0, 0, 17, 0, 0, 0, 15] = 8" by simp
  have 3: "DecryptPacket demo_env (mEncryptionKey demo_conn) demo_frame = demo_frame"
    by (simp add: demo_env_def)
  have len: "length (concat (map command_bytes [demo_chat, demo_keepalive])) = 15"
    by (simp add: length_command_bytes demo_chat_def demo_keepalive_def)
  have 5: "mSize demo_frame = of_nat (8 + length (concat (map command_bytes [demo_chat, demo_keepalive])) + length [0 :: u8, 0])"
    unfolding len by (simp add: demo_frame_def)
  have 6: "8 + length (concat (map command_bytes [demo_chat, demo_keepalive])) + length [0 :: u8, 0] \<le> unat (MAX_PACKET_SIZE demo_env)"
    unfolding len by (simp add: demo_env_def)
  have 7: "(17 :: u32) - 15 = of_nat (length [0 :: u8, 0])" by simp
  have 8: "mMessageQueue demo_conn = Some []" by (simp add: demo_conn_def)
  have 9: "map (\<lambda>c. Some (self demo_conn, cmd_code c, cmd_payload c)) [demo_chat, demo_keepalive] = [Some (1, 0x26, [104, 105]), Some (1, 0x56, [7])]"
    by (simp add: demo_conn_def demo_chat_def demo_keepalive_def)
  show ?thesis
    using C1_commands_enqueued_in_order[OF 1 2 3 demo_frame_bytes 5 6 7 8]
    unfolding 9 .
qed


lemma SocketError_status [simp]: "mStatus (SocketError c) = STATUS_NOT_CONNECTED"
  by (simp add: SocketError_def TcpConnection_SocketError_def Close_def TcpConnection_Close_def
           split: option.splits)

lemma SocketError_parser [simp]: "mPacketParser (SocketError c) = None"
  by (simp add: SocketError_def)

lemma SocketError_key [simp]: "mEncryptionKey (SocketError c) = mEncryptionKey c"
  by (simp add: SocketError_def TcpConnection_SocketError_def Close_def TcpConnection_Close_def
           split: option.splits)

lemma SocketError_queue:
  "mMessageQueue (SocketError c) =
     (case mMessageQueue c of
        None \<Rightarrow> None
      | Some q \<Rightarrow> Some (if mStatus c \<noteq> STATUS_NOT_CONNECTED
                         then q @ [Message_ConnectionClosed (self c)] else q))"
  by (simp add: SocketError_def TcpConnection_SocketError_def Close_def TcpConnection_Close_def
           split: option.splits)

lemma ParsePacket_loop_short_size:
  assumes data: "mData copy = pre @ [h0, h1] @ bytes_le16 commandSize @ bytes_le16 commandCode @ rest"
    and pos: "mPosition copy = of_nat (length pre)"
    and size: "mSize copy = of_nat sz" "sz \<le> unat mx"
    and sz: "sz = length pre + 6 + k" "k \<le> length rest"
    and pad: "unat padding < 6 + k"
    and bad: "commandSize < 4"
  shows "ParsePacket_loop mx padding conn copy =
         (SocketError conn, copy\<lparr>mPosition := of_nat (length pre + 6)\<rparr>, ErrorFound)"
proof -
  define n where "n = length pre"
  have szn: "sz = n + 6 + k" using sz by (simp add: n_def)
  have lt: "sz < 2 ^ 32" using size(2) unsigned_less[of mx, where ?'a = nat] by simp
  have len: "sz \<le> length (mData copy)" using data sz by (simp add: bytes_le16_def)
  have L: "unat (Left copy) = 6 + k"
    using Left_at[OF pos size(1) _ lt] szn by (simp add: n_def)
  have g1: "Left copy > padding" using L pad by (simp add: word_less_nat_alt)
  have g2: "\<not> Left copy < 6" using L by (simp add: word_less_nat_alt)
  define c1 where "c1 = copy\<lparr>mPosition := of_nat (n + 2)\<rparr>"
  define c2 where "c2 = copy\<lparr>mPosition := of_nat (n + 4)\<rparr>"
  define c3 where "c3 = copy\<lparr>mPosition := of_nat (n + 6)\<rparr>"
  have s1: "Skip mx copy 2 = Inr c1"
    using Skip_at[of copy n 2 mx] pos szn size(2) by (simp add: n_def c1_def)
  have d2: "mData copy ! (n + 2) = ucast commandSize"
    and d3: "mData copy ! (n + 2 + 1) = ucast (drop_bit 8 commandSize)"
    and d4: "mData copy ! (n + 4) = ucast commandCode"
    and d5: "mData copy ! (n + 4 + 1) = ucast (drop_bit 8 commandCode)"
    by (simp_all add: data n_def nth_append bytes_le16_def)
  have r1: "ReadU16Little mx c1 = Inr (commandSize, c2)"
  proof -
    have "ReadU16Little mx c1 = Inr (le16 (mData c1 ! (n + 2)) (mData c1 ! (n + 2 + 1)),
            c1\<lparr>mPosition := of_nat (n + 2 + 2)\<rparr>)"
      using size szn len by (intro ReadU16Little_at[where sz = sz]) (simp_all add: c1_def)
    moreover have "mData c1 = mData copy" by (simp add: c1_def)
    moreover have "c1\<lparr>mPosition := of_nat (n + 2 + 2)\<rparr> = c2" by (simp add: c1_def c2_def)
    ultimately show ?thesis
      by (simp only: d2 d3 le16_bytes)
  qed
  have r2: "ReadU16Little mx c2 = Inr (commandCode, c3)"
  proof -
    have "ReadU16Little mx c2 = Inr (le16 (mData c2 ! (n + 4)) (mData c2 ! (n + 4 + 1)),
            c2\<lparr>mPosition := of_nat (n + 4 + 2)\<rparr>)"
      using size szn len by (intro ReadU16Little_at[where sz = sz]) (simp_all add: c2_def)
    moreover have "mData c2 = mData copy" by (simp add: c2_def)
    moreover have "c2\<lparr>mPosition := of_nat (n + 4 + 2)\<rparr> = c3" by (simp add: c2_def c3_def)
    ultimately show ?thesis
      by (simp only: d4 d5 le16_bytes)
  qed
  show ?thesis
    apply (subst ParsePacket_loop.simps)
    apply (simp only: g1 g2 s1 r1 r2 bad Let_def if_True if_False not_True_eq_False
             sum.case prod.case simp_thms)
    apply (simp add: n_def c3_def)
    done
qed

text \<open>
  C2. When the loop reaches a command header (one that starts before the
  padding and has its six bytes) whose \<open>commandSize\<close> is less than 4,
  parsing stops with a socket error: the connection becomes not-connected and
  loses its parser, and the packet messages on the queue are those of the
  commands before the header, none for the header itself.
\<close>

theorem C2_short_command_size_fails:
  assumes cmds_ok: "\<forall>c\<in>set cmds. command_ok c"
    and hdr: "length hdr = 8"
    and dec: "DecryptPacket env (mEncryptionKey conn) packet = decrypted"
    and data: "mData decrypted = hdr @ concat (map command_bytes cmds) @
                 [h0, h1] @ bytes_le16 commandSize @ bytes_le16 commandCode @ rest"
    and size: "mSize decrypted = of_nat sz" "sz \<le> unat (MAX_PACKET_SIZE env)"
    and sz: "sz = 8 + length (concat (map command_bytes cmds)) + 6 + k" "k \<le> length rest"
    and pad: "unat (paddedSize - realSize) < 6 + k"
    and bad: "commandSize < 4"
    and queue: "mMessageQueue conn = Some q"
  shows "\<exists>msgs conn'. ParsePacket_frame env conn packet paddedSize realSize = (conn', None) \<and>
           conn' = SocketError (conn\<lparr>mMessageQueue := Some (q @ msgs)\<rparr>) \<and>
           map delivered msgs = map (\<lambda>c. Some (self conn, cmd_code c, cmd_payload c)) cmds \<and>
           mStatus conn' = STATUS_NOT_CONNECTED \<and> mPacketParser conn' = None \<and>
           (\<exists>q'. mMessageQueue conn' = Some q' \<and>
                 List.map_filter delivered q' = List.map_filter delivered (q @ msgs))"
proof -
  define mx where "mx = MAX_PACKET_SIZE env"
  define padding where "padding = paddedSize - realSize"
  define body where "body = concat (map command_bytes cmds)"
  define tail where "tail = [h0, h1] @ bytes_le16 commandSize @ bytes_le16 commandCode @ rest"
  define copy where "copy = decrypted\<lparr>mPosition := of_nat (length hdr)\<rparr>"
  have seek: "Seek mx decrypted 8 = Inr copy"
  proof -
    have "unat (8 :: u32) \<le> unat mx" using size(2) sz by (simp add: mx_def)
    then show ?thesis by (simp add: Seek_ok_iff copy_def hdr)
  qed
  obtain msgs where
    loop: "ParsePacket_loop mx padding conn copy =
           ParsePacket_loop mx padding (conn\<lparr>mMessageQueue := Some (q @ msgs)\<rparr>)
             (copy\<lparr>mPosition := of_nat (length hdr + length (concat (map command_bytes cmds)))\<rparr>)"
    and del: "map delivered msgs = map (\<lambda>c. Some (self conn, cmd_code c, cmd_payload c)) cmds"
  proof -
    have "\<exists>msgs. ParsePacket_loop mx padding conn copy =
           ParsePacket_loop mx padding (conn\<lparr>mMessageQueue := Some (q @ msgs)\<rparr>)
             (copy\<lparr>mPosition := of_nat (length hdr + length (concat (map command_bytes cmds)))\<rparr>) \<and>
           map delivered msgs = map (\<lambda>c. Some (self conn, cmd_code c, cmd_payload c)) cmds"
    proof (rule ParsePacket_loop_commands[where rest = tail and k = "6 + k" and sz = sz])
      show "\<forall>c\<in>set cmds. command_ok c" by (rule cmds_ok)
      show "mData copy = hdr @ concat (map command_bytes cmds) @ tail"
        using data by (simp add: copy_def tail_def)
      show "mPosition copy = of_nat (length hdr)" by (simp add: copy_def)
      show "mSize copy = of_nat sz" using size by (simp add: copy_def)
      show "sz \<le> unat mx" using size by (simp add: mx_def)
      show "sz = length hdr + length (concat (map command_bytes cmds)) + (6 + k)"
        using sz by (simp add: hdr)
      show "6 + k \<le> length tail" using sz(2) by (simp add: tail_def bytes_le16_def)
      show "unat padding \<le> 6 + k" using pad by (simp add: padding_def)
      show "mMessageQueue conn = Some q" by (rule queue)
    qed
    then show ?thesis using that by blast
  qed
  define conn1 where "conn1 = conn\<lparr>mMessageQueue := Some (q @ msgs)\<rparr>"
  define copy1 where "copy1 = copy\<lparr>mPosition := of_nat (length (hdr @ body))\<rparr>"
  have c1: "copy\<lparr>mPosition := of_nat (length hdr + length (concat (map command_bytes cmds)))\<rparr> = copy1"
    by (simp add: copy1_def body_def)
  have fin: "ParsePacket_loop mx padding conn1 copy1 =
             (SocketError conn1, copy1\<lparr>mPosition := of_nat (length (hdr @ body) + 6)\<rparr>, ErrorFound)"
  proof (rule ParsePacket_loop_short_size[where rest = rest and k = k and sz = sz and
           ?h0.0 = h0 and ?h1.0 = h1 and commandCode = commandCode])
    show "mData copy1 = (hdr @ body) @ [h0, h1] @ bytes_le16 commandSize @ bytes_le16 commandCode @ rest"
      using data by (simp add: copy1_def copy_def body_def)
    show "mPosition copy1 = of_nat (length (hdr @ body))" by (simp add: copy1_def)
    show "mSize copy1 = of_nat sz" using size by (simp add: copy1_def copy_def)
    show "sz \<le> unat mx" using size by (simp add: mx_def)
    show "sz = length (hdr @ body) + 6 + k" using sz by (simp add: hdr body_def)
    show "k \<le> length rest" by (rule sz(2))
    show "unat padding < 6 + k" using pad by (simp add: padding_def)
    show "commandSize < 4" by (rule bad)
  qed
  have res: "ParsePacket_frame env conn packet paddedSize realSize = (SocketError conn1, None)"
    unfolding ParsePacket_frame_def
    by (simp only: dec padding_def[symmetric] Let_def mx_def[symmetric] seek sum.case loop c1
          conn1_def[symmetric] fin prod.case loop_exit.case)
  have q1: "mMessageQueue conn1 = Some (q @ msgs)" by (simp add: conn1_def)
  have "\<exists>q'. mMessageQueue (SocketError conn1) = Some q' \<and>
          List.map_filter delivered q' = List.map_filter delivered (q @ msgs)"
    by (simp add: SocketError_queue q1 List.map_filter_def)
  then show ?thesis
    using res del unfolding conn1_def
    by (intro exI[of _ msgs] exI[of _ "SocketError (conn\<lparr>mMessageQueue := Some (q @ msgs)\<rparr>)"]) simp
qed


lemma demo_corrupt_frame_bytes:
  "mData demo_corrupt_frame = [0, 0, 0, 16, 0, 0, 0, 14] @ concat (map command_bytes [demo_chat]) @
     [0, 5] @ bytes_le16 3 @ bytes_le16 0x56 @ [0, 0]"
  by (simp add: demo_corrupt_frame_def bytes_le16_def)

theorem C2_short_command_size_fails_witness:
  "\<exists>msgs conn'. ParsePacket_frame demo_env demo_conn demo_corrupt_frame 16 14 = (conn', None) \<and>
     conn' = SocketError (demo_conn\<lparr>mMessageQueue := Some ([] @ msgs)\<rparr>) \<and>
     map delivered msgs = [Some (1, 0x26, [104, 105])] \<and>
     mStatus conn' = STATUS_NOT_CONNECTED \<and> mPacketParser conn' = None \<and>
     (\<exists>q'. mMessageQueue conn' = Some q' \<and>
           List.map_filter delivered q' = List.map_filter delivered ([] @ msgs))"
proof -
  have 1: "\<forall>c\<in>set [demo_chat]. command_ok c"
    by (simp add: command_ok_def demo_chat_def)
  have 2: "length [0 :: u8, 0, 0, 16, 0, 0, 0, 14] = 8" by simp
  have 3: "DecryptPacket demo_env (mEncryptionKey demo_conn) demo_corrupt_frame = demo_corrupt_frame"
    by (simp add: demo_env_def)
  have len: "length (concat (map command_bytes [demo_chat])) = 8"
    by (simp add: length_command_bytes demo_chat_def)
  have 5: "mSize demo_corrupt_frame = of_nat 24" by (simp add: demo_corrupt_frame_def)
  have 6: "24 \<le> unat (MAX_PACKET_SIZE demo_env)" by (simp add: demo_env_def)
  have 7: "24 = 8 + length (concat (map command_bytes [demo_chat])) + 6 + 2"
    unfolding len by simp
  have 8: "2 \<le> length [0 :: u8, 0]" by simp
  have 9: "unat ((16 :: u32) - 14) < 6 + 2" by simp
  have 10: "(3 :: u16) < 4" by simp
  have 11: "mMessageQueue demo_conn = Some []" by (simp add: demo_conn_def)
  have 12: "map (\<lambda>c. Some (self demo_conn, cmd_code c, cmd_payload c)) [demo_chat] = [Some (1, 0x26, [104, 105])]"
    by (simp add: demo_conn_def demo_chat_def)
  show ?thesis
    using C2_short_command_size_fails[OF 1 2 3 demo_corrupt_frame_bytes 5 6 7 8 9 10 11]
    unfolding 12 .
qed

section \<open>The handshake\<close>

lemma be32_bytes:
  "be32 (ucast (drop_bit 24 w)) (ucast (drop_bit 16 w)) (ucast (drop_bit 8 w)) (ucast w) = w"
  unfolding be32_def
proof (rule bit_word_eqI)
  fix n assume "n < LENGTH(32)"
  then consider "n < 8" | "8 \<le> n" "n < 16" | "16 \<le> n" "n < 24" | "24 \<le> n" "n < 32"
    by fastforce
  then show "bit (push_bit 24 (ucast (ucast (drop_bit 24 w) :: u8)) OR
                  push_bit 16 (ucast (ucast (drop_bit 16 w) :: u8)) OR
                  push_bit 8 (ucast (ucast (drop_bit 8 w) :: u8)) OR ucast (ucast w :: u8) :: u32) n
             = bit w n"
    by cases (auto simp: bit_simps)
qed

lemma byte_at_nat:
  assumes "n < length (mData p)" "n < 2 ^ 32"
  shows "byte_at p (of_nat n) = mData p ! n"
  using assms by (simp add: byte_at_def unat_of_nat32)

lemma PeekU32Big_at:
  assumes "mPosition p = of_nat n" "mSize p = of_nat sz" "n + 4 \<le> sz" "sz < 2 ^ 32"
    "sz \<le> length (mData p)"
  shows "PeekU32Big p = Inr (be32 (mData p ! n) (mData p ! (n + 1)) (mData p ! (n + 2)) (mData p ! (n + 3)))"
proof -
  have e: "(of_nat n + 1 :: u32) = of_nat (n + 1)" "(of_nat n + 2 :: u32) = of_nat (n + 2)"
    "(of_nat n + 3 :: u32) = of_nat (n + 3)" "(of_nat n + 4 :: u32) = of_nat (n + 4)"
    by simp_all
  have a: "unat (of_nat (n + 4) :: u32) = n + 4" using assms by (intro unat_of_nat32) simp
  have b: "unat (of_nat sz :: u32) = sz" using assms by (intro unat_of_nat32) simp
  have "\<not> unat (of_nat sz :: u32) < unat (of_nat (n + 4) :: u32)"
    unfolding a b using assms(3) by simp
  then have c: "\<not> (of_nat sz :: u32) < of_nat (n + 4)"
    by (simp only: word_less_nat_alt simp_thms)
  have d: "byte_at p (of_nat n) = mData p ! n" "byte_at p (of_nat (n + 1)) = mData p ! (n + 1)"
    "byte_at p (of_nat (n + 2)) = mData p ! (n + 2)" "byte_at p (of_nat (n + 3)) = mData p ! (n + 3)"
    by (rule byte_at_nat; use assms in simp)+
  show ?thesis
    unfolding PeekU32Big_def by (simp only: assms(1,2) e c d if_False)
qed

lemma ReadU32Big_at:
  assumes "mPosition p = of_nat n" "mSize p = of_nat sz" "n + 4 \<le> sz" "sz \<le> unat mx"
    "sz \<le> length (mData p)"
  shows "ReadU32Big mx p = Inr (be32 (mData p ! n) (mData p ! (n + 1)) (mData p ! (n + 2)) (mData p ! (n + 3)),
           p\<lparr>mPosition := of_nat (n + 4)\<rparr>)"
proof -
  have lt: "sz < 2 ^ 32" using assms(4) unsigned_less[of mx, where ?'a = nat] by simp
  have pk: "PeekU32Big p = Inr (be32 (mData p ! n) (mData p ! (n + 1)) (mData p ! (n + 2)) (mData p ! (n + 3)))"
    using assms(1,2,3) lt assms(5) by (rule PeekU32Big_at)
  have s: "Skip mx p 4 = Inr (p\<lparr>mPosition := of_nat (n + 4)\<rparr>)"
    using Skip_at[of p n 4 mx] assms by simp
  show ?thesis
    using pk s unfolding PeekU32Big_def ReadU32Big_def
    by (auto split: if_splits)
qed

lemma ReadArray_at:
  assumes "mPosition p = of_nat n" "mSize p = of_nat sz" "n + k \<le> sz" "sz \<le> unat mx"
    "sz \<le> length (mData p)"
  shows "ReadArray mx p (of_nat k) = Inr (take k (drop n (mData p)), p\<lparr>mPosition := of_nat (n + k)\<rparr>)"
proof (cases "k = 0")
  case True
  then show ?thesis using assms(1) by (simp add: ReadArray_def)
next
  case False
  have lt: "sz < 2 ^ 32" using assms(4) unsigned_less[of mx, where ?'a = nat] by simp
  have uk: "unat (of_nat k :: u32) = k" using lt assms(3) by (intro unat_of_nat32) simp
  then have k0: "(of_nat k :: u32) \<noteq> 0" using False by (metis unat_0)
  have a: "unat (of_nat (n + k) :: u32) = n + k" using lt assms(3) by (intro unat_of_nat32) simp
  have b: "unat (of_nat sz :: u32) = sz" using lt by (intro unat_of_nat32) simp
  have e: "(of_nat n + of_nat k :: u32) = of_nat (n + k)" by simp
  have "\<not> unat (of_nat sz :: u32) < unat (of_nat (n + k) :: u32)"
    unfolding a b using assms(3) by simp
  then have c: "\<not> (of_nat sz :: u32) < of_nat n + of_nat k"
    unfolding e by (simp only: word_less_nat_alt simp_thms)
  have s: "Skip mx p (of_nat k) = Inr (p\<lparr>mPosition := of_nat (n + k)\<rparr>)"
    using assms by (intro Skip_at) auto
  have "map (\<lambda>i. byte_at p (of_nat n + of_nat i)) [0 ..< k] = take k (drop n (mData p))"
  proof (rule nth_equalityI)
    show "length (map (\<lambda>i. byte_at p (of_nat n + of_nat i)) [0 ..< k]) = length (take k (drop n (mData p)))"
      using assms by simp
  next
    fix i assume "i < length (map (\<lambda>i. byte_at p (of_nat n + of_nat i)) [0 ..< k])"
    then have i: "i < k" by simp
    have "byte_at p (of_nat (n + i)) = mData p ! (n + i)"
      using i assms lt by (intro byte_at_nat) simp_all
    moreover have "(of_nat n + of_nat i :: u32) = of_nat (n + i)" by simp
    ultimately show "map (\<lambda>i. byte_at p (of_nat n + of_nat i)) [0 ..< k] ! i = take k (drop n (mData p)) ! i"
      using i assms by (simp del: of_nat_add)
  qed
  then show ?thesis
    using k0 c s uk assms(1,2) by (simp add: ReadArray_def)
qed

lemma ReadString32Big_at:
  assumes data: "mData p = pre @ bytes_be32 (of_nat (length str)) @ str @ rest"
    and pos: "mPosition p = of_nat (length pre)"
    and size: "mSize p = of_nat sz" "sz \<le> unat mx" "sz \<le> length (mData p)"
    and fit: "length pre + 4 + length str \<le> sz"
  shows "ReadString32Big mx dec False p = Inr (dec str, p\<lparr>mPosition := of_nat (length pre + 4 + length str)\<rparr>)"
proof -
  define n where "n = length pre"
  define w :: u32 where "w = of_nat (length str)"
  have dd: "mData p = pre @ [ucast (drop_bit 24 w), ucast (drop_bit 16 w), ucast (drop_bit 8 w), ucast w] @ str @ rest"
    using data by (simp add: bytes_be32_def w_def)
  have d: "mData p ! n = ucast (drop_bit 24 w)" "mData p ! (n + 1) = ucast (drop_bit 16 w)"
    "mData p ! (n + 2) = ucast (drop_bit 8 w)" "mData p ! (n + 3) = ucast w"
    by (simp_all add: dd n_def nth_append)
  have r: "ReadU32Big mx p = Inr (w, p\<lparr>mPosition := of_nat (n + 4)\<rparr>)"
  proof -
    have "ReadU32Big mx p = Inr (be32 (mData p ! n) (mData p ! (n + 1)) (mData p ! (n + 2)) (mData p ! (n + 3)),
           p\<lparr>mPosition := of_nat (n + 4)\<rparr>)"
      using pos size fit by (intro ReadU32Big_at[where sz = sz]) (simp_all add: n_def)
    then show ?thesis by (simp only: d be32_bytes)
  qed
  have a: "ReadArray mx (p\<lparr>mPosition := of_nat (n + 4)\<rparr>) (of_nat (length str)) =
           Inr (take (length str) (drop (n + 4) (mData (p\<lparr>mPosition := of_nat (n + 4)\<rparr>))),
                p\<lparr>mPosition := of_nat (n + 4), mPosition := of_nat (n + 4 + length str)\<rparr>)"
    using size fit by (intro ReadArray_at[where sz = sz]) (simp_all add: n_def)
  have t: "take (length str) (drop (n + 4) (mData p)) = str"
    by (simp add: dd n_def)
  show ?thesis
    unfolding ReadString32Big_def r sum.case prod.case w_def[symmetric]
    using a t by (simp add: w_def n_def)
qed

lemma PeekU32Big_bytes:
  assumes data: "mData p = pre @ bytes_be32 w @ rest"
    and pos: "mPosition p = of_nat (length pre)"
    and size: "mSize p = of_nat sz" "sz < 2 ^ 32" "sz \<le> length (mData p)"
    and fit: "length pre + 4 \<le> sz"
  shows "PeekU32Big p = Inr w"
proof -
  define n where "n = length pre"
  have dd: "mData p = pre @ [ucast (drop_bit 24 w), ucast (drop_bit 16 w), ucast (drop_bit 8 w), ucast w] @ rest"
    using data by (simp add: bytes_be32_def)
  have d: "mData p ! n = ucast (drop_bit 24 w)" "mData p ! (n + 1) = ucast (drop_bit 16 w)"
    "mData p ! (n + 2) = ucast (drop_bit 8 w)" "mData p ! (n + 3) = ucast w"
    by (simp_all add: dd n_def nth_append)
  have "PeekU32Big p = Inr (be32 (mData p ! n) (mData p ! (n + 1)) (mData p ! (n + 2)) (mData p ! (n + 3)))"
    using pos size fit by (intro PeekU32Big_at[where sz = sz]) (simp_all add: n_def)
  then show ?thesis by (simp only: d be32_bytes)
qed

lemma length_server_parameters:
  "length (server_parameters env prime serverPublic) =
     length (DH_BASE_STRING env) + length prime + length serverPublic + 16"
  by (simp add: server_parameters_def bytes_be32_def)

lemma ParseClientEncryptionStart_parameters:
  assumes data: "mData packet = server_parameters env prime serverPublic @ junk"
    and pos: "mPosition packet = 0"
    and size: "mSize packet = of_nat (length (server_parameters env prime serverPublic))"
    and cap: "length (server_parameters env prime serverPublic) \<le> unat (MAX_PACKET_SIZE env)"
    and lens: "length prime = unat (DH_KEY_HEX_SIZE env)" "length serverPublic = unat (DH_KEY_HEX_SIZE env)"
    and dec: "FromEncoding env (DH_BASE_STRING env) = DH_BASE_STRING env"
  shows "ParseClientEncryptionStart env conn packet =
     (let dh = LoadDiffieHellman env (FromEncoding env prime);
          sharedData = GenerateDiffieHellmanSharedData env dh (FromEncoding env serverPublic);
          c2 = conn\<lparr>mStatus := STATUS_WAITING_ENCRYPTION, mDiffieHellman := dh\<rparr>
      in if BF_NET_KEY_BYTE_SIZE env \<noteq> length sharedData
         then (SocketError c2, Clear packet, None)
         else (ConnectionEncrypted env
                 (c2\<lparr>mOutgoing := mOutgoing conn @ [WriteString32Big env (GenerateDiffieHellmanPublic env dh)],
                     mEncryptionKey := sharedData, mStatus := STATUS_ENCRYPTED,
                     mPacketParser := Some ParsePacket_fn\<rparr>), Clear packet, None))"
proof -
  define mx where "mx = MAX_PACKET_SIZE env"
  define B where "B = DH_BASE_STRING env"
  define K where "K = DH_KEY_HEX_SIZE env"
  define lb where "lb = length B"
  define sz where "sz = lb + 2 * unat K + 16"
  have len: "length (server_parameters env prime serverPublic) = sz"
    by (simp add: length_server_parameters lens sz_def lb_def B_def K_def)
  have szmx: "sz \<le> unat mx" using cap len by (simp add: mx_def)
  have lt: "sz < 2 ^ 32" using szmx unsigned_less[of mx, where ?'a = nat] by simp
  have msz: "mSize packet = of_nat sz" using size len by simp
  have usz: "unat (Size packet) = sz" using msz lt by (simp add: Size_def unat_of_nat32)
  have szd: "sz \<le> length (mData packet)" using data len by simp
  have Kp: "of_nat (length prime) = K" "of_nat (length serverPublic) = K"
    using lens by (simp_all add: K_def)
  have d0: "mData packet = [] @ bytes_be32 0 @ (bytes_be32 (of_nat lb) @ B @ bytes_be32 K @ prime @ bytes_be32 K @ serverPublic @ junk)"
    using data by (simp add: server_parameters_def bytes_be32_def B_def K_def lb_def)
  define p1 where "p1 = packet\<lparr>mPosition := of_nat 4\<rparr>"
  define p2 where "p2 = packet\<lparr>mPosition := of_nat (8 + lb)\<rparr>"
  define p3 where "p3 = packet\<lparr>mPosition := of_nat (12 + lb + unat K)\<rparr>"
  define p4 where "p4 = packet\<lparr>mPosition := of_nat sz\<rparr>"
  have r0: "ReadU32Big mx packet = Inr (0, p1)"
  proof -
    have "ReadU32Big mx packet = Inr (be32 (mData packet ! 0) (mData packet ! (0 + 1))
             (mData packet ! (0 + 2)) (mData packet ! (0 + 3)), packet\<lparr>mPosition := of_nat (0 + 4)\<rparr>)"
      using pos msz szmx szd by (intro ReadU32Big_at[where sz = sz]) (simp_all add: sz_def)
    moreover have "be32 (mData packet ! 0) (mData packet ! (0 + 1)) (mData packet ! (0 + 2)) (mData packet ! (0 + 3)) = 0"
      by (simp add: d0 bytes_be32_def be32_def)
    ultimately show ?thesis by (simp add: p1_def)
  qed
  have d1: "mData p1 = [0, 0, 0, 0] @ bytes_be32 (of_nat (length B)) @ B @ (bytes_be32 K @ prime @ bytes_be32 K @ serverPublic @ junk)"
    using data by (simp add: server_parameters_def p1_def B_def K_def)
  have k1: "PeekU32Big p1 = Inr (of_nat lb)"
    unfolding lb_def using d1
    by (rule PeekU32Big_bytes[where sz = sz]) (use msz lt szd in \<open>simp_all add: p1_def sz_def\<close>)
  have ulb: "unat (of_nat lb :: u32) = lb" using lt by (intro unat_of_nat32) (simp add: sz_def)
  have r1: "ReadString32Big mx (FromEncoding env) False p1 = Inr (B, p2)"
  proof -
    have "ReadString32Big mx (FromEncoding env) False p1 =
            Inr (FromEncoding env B, p1\<lparr>mPosition := of_nat (length [0 :: u8, 0, 0, 0] + 4 + length B)\<rparr>)"
      using d1 by (rule ReadString32Big_at[where sz = sz])
        (use msz szmx szd in \<open>simp_all add: p1_def sz_def lb_def\<close>)
    then show ?thesis using dec by (simp add: p1_def p2_def B_def lb_def)
  qed
  have d2: "mData p2 = ([0, 0, 0, 0] @ bytes_be32 (of_nat (length B)) @ B) @ bytes_be32 (of_nat (length prime)) @ prime @ (bytes_be32 K @ serverPublic @ junk)"
    using data by (simp add: server_parameters_def p2_def B_def K_def Kp[unfolded K_def])
  have k2: "PeekU32Big p2 = Inr K"
    using d2 unfolding Kp
    by (rule PeekU32Big_bytes[where sz = sz])
      (use msz lt szd in \<open>simp_all add: p2_def sz_def lb_def bytes_be32_def\<close>)
  have r2: "ReadString32Big mx (FromEncoding env) False p2 = Inr (FromEncoding env prime, p3)"
  proof -
    have "ReadString32Big mx (FromEncoding env) False p2 =
            Inr (FromEncoding env prime, p2\<lparr>mPosition := of_nat (length ([0 :: u8, 0, 0, 0] @ bytes_be32 (of_nat (length B)) @ B) + 4 + length prime)\<rparr>)"
      using d2 by (rule ReadString32Big_at[where sz = sz])
        (use msz szmx szd lens in \<open>simp_all add: p2_def sz_def lb_def bytes_be32_def K_def\<close>)
    then show ?thesis using lens by (simp add: p2_def p3_def lb_def bytes_be32_def K_def)
  qed
  have d3: "mData p3 = ([0, 0, 0, 0] @ bytes_be32 (of_nat (length B)) @ B @ bytes_be32 K @ prime) @ bytes_be32 (of_nat (length serverPublic)) @ serverPublic @ junk"
    using data by (simp add: server_parameters_def p3_def B_def K_def Kp[unfolded K_def])
  have k3: "PeekU32Big p3 = Inr K"
    using d3 unfolding Kp
    by (rule PeekU32Big_bytes[where sz = sz])
      (use msz lt szd lens in \<open>simp_all add: p3_def sz_def lb_def bytes_be32_def K_def\<close>)
  have r3: "ReadString32Big mx (FromEncoding env) False p3 = Inr (FromEncoding env serverPublic, p4)"
  proof -
    have "ReadString32Big mx (FromEncoding env) False p3 =
            Inr (FromEncoding env serverPublic, p3\<lparr>mPosition := of_nat (length ([0 :: u8, 0, 0, 0] @ bytes_be32 (of_nat (length B)) @ B @ bytes_be32 K @ prime) + 4 + length serverPublic)\<rparr>)"
      using d3 by (rule ReadString32Big_at[where sz = sz])
        (use msz szmx szd lens in \<open>simp_all add: p3_def sz_def lb_def bytes_be32_def K_def\<close>)
    moreover have "length ([0 :: u8, 0, 0, 0] @ bytes_be32 (of_nat (length B)) @ B @ bytes_be32 K @ prime) + 4 + length serverPublic = sz"
      using lens by (simp add: sz_def lb_def bytes_be32_def K_def)
    ultimately have "ReadString32Big mx (FromEncoding env) False p3 =
            Inr (FromEncoding env serverPublic, p3\<lparr>mPosition := of_nat sz\<rparr>)"
      by (simp only:)
    then show ?thesis by (simp add: p3_def p4_def)
  qed
  have L4: "Left p4 = 0" using msz by (simp add: Left_def p4_def)
  have cl: "Clear p4 = Clear packet" by (simp add: Clear_def p4_def)
  have need: "\<not> lb + 2 * unat K + 16 > unat (Size packet)"
    using usz by (simp add: sz_def)
  show ?thesis
    unfolding ParseClientEncryptionStart_def Let_def mx_def[symmetric] B_def[symmetric]
      K_def[symmetric] lb_def[symmetric]
    apply (simp only: need if_False r0 sum.case prod.case simp_thms k1 ulb r1 k2 r2 k3 r3 L4
        if_True cl)
    apply (simp add: SendPacket_def SetEncryptionKey_def)
    done
qed

lemma ParseServerEncryptionFinish_public:
  assumes data: "mData packet = client_public clientPublic @ junk"
    and pos: "mPosition packet = 0"
    and size: "mSize packet = of_nat (length (client_public clientPublic))"
    and cap: "length (client_public clientPublic) \<le> unat (MAX_PACKET_SIZE env)"
    and len: "length clientPublic \<le> unat (DH_KEY_HEX_SIZE env)"
  shows "ParseServerEncryptionFinish env conn packet =
     (let sharedData = GenerateDiffieHellmanSharedData env (mDiffieHellman conn)
                         (FromEncoding env clientPublic)
      in if BF_NET_KEY_BYTE_SIZE env \<noteq> length sharedData
         then (SocketError conn, Clear packet, None)
         else (ConnectionEncrypted env
                 (conn\<lparr>mEncryptionKey := sharedData, mStatus := STATUS_ENCRYPTED,
                       mPacketParser := Some ParsePacket_fn\<rparr>), Clear packet, None))"
proof -
  define mx where "mx = MAX_PACKET_SIZE env"
  define K where "K = DH_KEY_HEX_SIZE env"
  define l where "l = length clientPublic"
  define sz where "sz = 4 + l"
  have lc: "length (client_public clientPublic) = sz"
    by (simp add: client_public_def bytes_be32_def sz_def l_def)
  have szmx: "sz \<le> unat mx" using cap lc by (simp add: mx_def)
  have lt: "sz < 2 ^ 32" using szmx unsigned_less[of mx, where ?'a = nat] by simp
  have msz: "mSize packet = of_nat sz" using size lc by simp
  have usz: "unat (Size packet) = sz" using msz lt by (simp add: Size_def unat_of_nat32)
  have szd: "sz \<le> length (mData packet)" using data lc by simp
  have d0: "mData packet = [] @ bytes_be32 (of_nat (length clientPublic)) @ clientPublic @ junk"
    using data by (simp add: client_public_def)
  have k0: "PeekU32Big packet = Inr (of_nat l)"
    unfolding l_def using d0
    by (rule PeekU32Big_bytes[where sz = sz]) (use msz lt szd pos in \<open>simp_all add: sz_def\<close>)
  have ul: "unat (of_nat l :: u32) = l" using lt by (intro unat_of_nat32) (simp add: sz_def)
  have g1: "\<not> 4 > unat (Size packet)" using usz by (simp add: sz_def)
  have g2: "\<not> 4 + unat (of_nat l :: u32) > unat (Size packet)" using usz ul by (simp add: sz_def)
  have g3: "\<not> K < of_nat l" using len ul by (simp add: word_less_nat_alt K_def l_def)
  define p1 where "p1 = packet\<lparr>mPosition := of_nat sz\<rparr>"
  have r: "ReadString32Big mx (FromEncoding env) False packet = Inr (FromEncoding env clientPublic, p1)"
  proof -
    have "ReadString32Big mx (FromEncoding env) False packet =
            Inr (FromEncoding env clientPublic, packet\<lparr>mPosition := of_nat (length ([] :: u8 list) + 4 + length clientPublic)\<rparr>)"
      using d0 by (rule ReadString32Big_at[where sz = sz])
        (use msz szmx szd pos in \<open>simp_all add: sz_def l_def\<close>)
    moreover have "length ([] :: u8 list) + 4 + length clientPublic = sz" by (simp add: sz_def l_def)
    ultimately show ?thesis unfolding p1_def by (simp only:)
  qed
  have L1: "Left p1 = 0" using msz by (simp add: Left_def p1_def)
  have cl: "Clear p1 = Clear packet" by (simp add: Clear_def p1_def)
  show ?thesis
    unfolding ParseServerEncryptionFinish_def Let_def mx_def[symmetric] K_def[symmetric]
    apply (simp only: g1 g2 g3 if_False k0 sum.case prod.case simp_thms r L1 if_True cl)
    apply (simp add: SetEncryptionKey_def)
    done
qed

lemma ConnectionEncrypted_ok:
  assumes "mMessageQueue c = Some q" "RequestPacket env 8"
  shows "ConnectionEncrypted env c = c\<lparr>mMessageQueue := Some (q @ [Message_Encrypted (self c)])\<rparr>"
  using assms by (simp add: ConnectionEncrypted_def SendMessage_def)

lemma take_eq_append: "take (length xs) ys = xs \<Longrightarrow> \<exists>junk. ys = xs @ junk"
  by (metis append_take_drop_id)

text \<open>
  C3. For every derivation of the shared secret during the handshake, in the
  client role after the parameters of the server and in the server role after
  the public value of the client: if the shared data has exactly
  \<open>BF_NET_KEY_BYTE_SIZE\<close> bytes the connection sets the encryption key and
  becomes encrypted; otherwise the connection is dropped by a socket error.
\<close>

theorem C3_shared_secret_length:
  "(client_parameters_arrived env packet prime serverPublic \<longrightarrow>
      (let sharedData = GenerateDiffieHellmanSharedData env
                          (LoadDiffieHellman env (FromEncoding env prime)) (FromEncoding env serverPublic);
           r = fst (ParseClientEncryptionStart env conn packet)
       in if length sharedData = BF_NET_KEY_BYTE_SIZE env then key_accepted env conn sharedData r
          else dropped conn r)) \<and>
   (server_public_arrived env packet' clientPublic \<longrightarrow>
      (let sharedData = GenerateDiffieHellmanSharedData env (mDiffieHellman conn')
                          (FromEncoding env clientPublic);
           r = fst (ParseServerEncryptionFinish env conn' packet')
       in if length sharedData = BF_NET_KEY_BYTE_SIZE env then key_accepted env conn' sharedData r
          else dropped conn' r))"
proof (intro conjI impI)
  assume a: "client_parameters_arrived env packet prime serverPublic"
  then obtain junk where d: "mData packet = server_parameters env prime serverPublic @ junk"
    unfolding client_parameters_arrived_def using take_eq_append by blast
  define dh where "dh = LoadDiffieHellman env (FromEncoding env prime)"
  define sharedData where "sharedData = GenerateDiffieHellmanSharedData env dh (FromEncoding env serverPublic)"
  define c2 where "c2 = conn\<lparr>mStatus := STATUS_WAITING_ENCRYPTION, mDiffieHellman := dh\<rparr>"
  define c6 where "c6 = c2\<lparr>mOutgoing := mOutgoing conn @ [WriteString32Big env (GenerateDiffieHellmanPublic env dh)],
                     mEncryptionKey := sharedData, mStatus := STATUS_ENCRYPTED,
                     mPacketParser := Some ParsePacket_fn\<rparr>"
  have run: "ParseClientEncryptionStart env conn packet =
     (if BF_NET_KEY_BYTE_SIZE env \<noteq> length sharedData then (SocketError c2, Clear packet, None)
      else (ConnectionEncrypted env c6, Clear packet, None))"
    using ParseClientEncryptionStart_parameters[OF d, of conn] a
    unfolding client_parameters_arrived_def
    by (simp add: Let_def dh_def sharedData_def c2_def c6_def)
  have acc: "key_accepted env conn sharedData (ConnectionEncrypted env c6)"
  proof -
    have "mMessageQueue c6 = mMessageQueue conn" by (simp add: c6_def c2_def)
    then have "mMessageQueue conn \<noteq> None \<and> RequestPacket env 8 \<longrightarrow>
        mEncryptionKey (ConnectionEncrypted env c6) = sharedData \<and>
        mStatus (ConnectionEncrypted env c6) = STATUS_ENCRYPTED \<and>
        mPacketParser (ConnectionEncrypted env c6) = Some ParsePacket_fn"
      by (auto simp: ConnectionEncrypted_ok c6_def)
    moreover have "mEncryptionKey c6 = sharedData \<and> mStatus c6 = STATUS_ENCRYPTED \<and>
        mPacketParser c6 = Some ParsePacket_fn"
      by (simp add: c6_def)
    ultimately show ?thesis unfolding key_accepted_def by blast
  qed
  have drp: "dropped conn (SocketError c2)"
    unfolding dropped_def by (auto simp: c2_def)
  show "let sharedData = GenerateDiffieHellmanSharedData env
                          (LoadDiffieHellman env (FromEncoding env prime)) (FromEncoding env serverPublic);
           r = fst (ParseClientEncryptionStart env conn packet)
       in if length sharedData = BF_NET_KEY_BYTE_SIZE env then key_accepted env conn sharedData r
          else dropped conn r"
    unfolding Let_def dh_def[symmetric] sharedData_def[symmetric] run
    using acc drp by auto
next
  assume a: "server_public_arrived env packet' clientPublic"
  then obtain junk where d: "mData packet' = client_public clientPublic @ junk"
    unfolding server_public_arrived_def using take_eq_append by blast
  define sharedData where "sharedData = GenerateDiffieHellmanSharedData env (mDiffieHellman conn')
                          (FromEncoding env clientPublic)"
  define c3 where "c3 = conn'\<lparr>mEncryptionKey := sharedData, mStatus := STATUS_ENCRYPTED,
                       mPacketParser := Some ParsePacket_fn\<rparr>"
  have run: "ParseServerEncryptionFinish env conn' packet' =
     (if BF_NET_KEY_BYTE_SIZE env \<noteq> length sharedData then (SocketError conn', Clear packet', None)
      else (ConnectionEncrypted env c3, Clear packet', None))"
    using ParseServerEncryptionFinish_public[OF d, of env conn'] a
    unfolding server_public_arrived_def
    by (simp add: Let_def sharedData_def c3_def)
  have acc: "key_accepted env conn' sharedData (ConnectionEncrypted env c3)"
  proof -
    have "mMessageQueue c3 = mMessageQueue conn'" by (simp add: c3_def)
    then have "mMessageQueue conn' \<noteq> None \<and> RequestPacket env 8 \<longrightarrow>
        mEncryptionKey (ConnectionEncrypted env c3) = sharedData \<and>
        mStatus (ConnectionEncrypted env c3) = STATUS_ENCRYPTED \<and>
        mPacketParser (ConnectionEncrypted env c3) = Some ParsePacket_fn"
      by (auto simp: ConnectionEncrypted_ok c3_def)
    moreover have "mEncryptionKey c3 = sharedData \<and> mStatus c3 = STATUS_ENCRYPTED \<and>
        mPacketParser c3 = Some ParsePacket_fn"
      by (simp add: c3_def)
    ultimately show ?thesis unfolding key_accepted_def by blast
  qed
  have drp: "dropped conn' (SocketError conn')"
    unfolding dropped_def by auto
  show "let sharedData = GenerateDiffieHellmanSharedData env (mDiffieHellman conn')
                          (FromEncoding env clientPublic);
           r = fst (ParseServerEncryptionFinish env conn' packet')
       in if length sharedData = BF_NET_KEY_BYTE_SIZE env then key_accepted env conn' sharedData r
          else dropped conn' r"
    unfolding Let_def sharedData_def[symmetric] run
    using acc drp by auto
qed

lemma demo_parameters_arrived:
  "client_parameters_arrived demo_env demo_parameters [70, 70, 70, 55] [48, 49, 65, 66]"
  "client_parameters_arrived demo_env_short demo_parameters [70, 70, 70, 55] [48, 49, 65, 66]"
  by (simp_all add: client_parameters_arrived_def demo_env_def demo_env_short_def
        demo_parameters_def server_parameters_def bytes_be32_def)

lemma demo_public_arrived:
  "server_public_arrived demo_env demo_public [48, 50, 67, 68]"
  "server_public_arrived demo_env_short demo_public [48, 50, 67, 68]"
  by (simp_all add: server_public_arrived_def demo_env_def demo_env_short_def
        demo_public_def client_public_def bytes_be32_def)

theorem C3_shared_secret_length_witness:
  "key_accepted demo_env demo_handshake_conn [1, 2, 3, 4, 5, 6, 7, 8]
     (fst (ParseClientEncryptionStart demo_env demo_handshake_conn demo_parameters)) \<and>
   key_accepted demo_env demo_handshake_conn [1, 2, 3, 4, 5, 6, 7, 8]
     (fst (ParseServerEncryptionFinish demo_env demo_handshake_conn demo_public)) \<and>
   dropped demo_handshake_conn
     (fst (ParseClientEncryptionStart demo_env_short demo_handshake_conn demo_parameters)) \<and>
   dropped demo_handshake_conn
     (fst (ParseServerEncryptionFinish demo_env_short demo_handshake_conn demo_public))"
proof -
  have 1: "GenerateDiffieHellmanSharedData demo_env d x = [1, 2, 3, 4, 5, 6, 7, 8]"
    "BF_NET_KEY_BYTE_SIZE demo_env = 8" for d x
    by (simp_all add: demo_env_def)
  have 2: "GenerateDiffieHellmanSharedData demo_env_short d x = [1, 2, 3, 4, 5, 6, 7]"
    "BF_NET_KEY_BYTE_SIZE demo_env_short = 8" for d x
    by (simp_all add: demo_env_def demo_env_short_def)
  show ?thesis
    using C3_shared_secret_length[of demo_env demo_parameters "[70, 70, 70, 55]" "[48, 49, 65, 66]"
        demo_handshake_conn demo_public "[48, 50, 67, 68]" demo_handshake_conn]
      C3_shared_secret_length[of demo_env_short demo_parameters "[70, 70, 70, 55]" "[48, 49, 65, 66]"
        demo_handshake_conn demo_public "[48, 50, 67, 68]" demo_handshake_conn]
    by (simp add: demo_parameters_arrived demo_public_arrived Let_def 1 2)
qed

section \<open>The identity cache\<close>

lemma GetObjectByUUID_iff:
  "GetObjectByUUID st uuid = Some a \<longleftrightarrow> sCached st uuid = Some a \<and> a \<in> dom (objects st)"
  by (auto simp: GetObjectByUUID_def lock_def split: option.splits)

text \<open>
  C5, as stated, fails when a cached object is registered again under the
  UUID of another cached object: the registration is refused, but the entry
  of the object under its previous UUID has already been removed.
\<close>

theorem C5_rekey_drops_own_entry_counterexample:
  "\<not> duplicate_refused_cache_unchanged 7 demo_store 1 2"
proof
  assume "duplicate_refused_cache_unchanged 7 demo_store 1 2"
  then have "sCached (snd (Register 7 demo_store 1 2)) 1 = sCached demo_store 1"
    by (simp add: duplicate_refused_cache_unchanged_def)
  then show False
    by (simp add: Register_def demo_store_def IsNull_def lock_def Let_def)
qed

text \<open>
  C5, amended. The cache is a map, so it holds at most one object per UUID,
  and \<open>GetObjectByUUID\<close> returns the cached instance of a UUID exactly when
  it is alive. \<open>Register\<close> of a live object under a UUID (the one passed, or
  its own when none is passed) that is not null and maps to a different live
  instance returns false and leaves the entry of that UUID as it is; the
  whole cache is unchanged when no UUID is passed, when the UUID passed is
  the object's own, or when the object is not cached under its own UUID.
\<close>

theorem C5_duplicate_refused:
  assumes live: "objects st selfp = Some obj" and nd: "\<not> mDeleted obj"
    and u: "u = (if pUuid \<noteq> 0 then pUuid else mUUID obj)" "u \<noteq> 0"
    and dup: "sCached st u = Some other" "other \<noteq> selfp" "other \<in> dom (objects st)"
  shows "fst (Register rnd st selfp pUuid) = False \<and>
         sCached (snd (Register rnd st selfp pUuid)) u = Some other \<and>
         GetObjectByUUID (snd (Register rnd st selfp pUuid)) u = Some other \<and>
         (pUuid = 0 \<or> pUuid = mUUID obj \<or> sCached st (mUUID obj) \<noteq> Some selfp \<longrightarrow>
            sCached (snd (Register rnd st selfp pUuid)) = sCached st) \<and>
         (\<forall>v a. GetObjectByUUID st v = Some a \<longleftrightarrow> sCached st v = Some a \<and> a \<in> dom (objects st))"
proof -
  show ?thesis
    using assms
    by (auto simp: Register_def Let_def IsNull_def lock_def GetObjectByUUID_iff
             split: option.splits if_splits)
qed

theorem C5_duplicate_refused_witness:
  "fst (Register 7 demo_store 3 0) = False \<and>
   sCached (snd (Register 7 demo_store 3 0)) 1 = Some 1 \<and>
   GetObjectByUUID (snd (Register 7 demo_store 3 0)) 1 = Some 1 \<and>
   sCached (snd (Register 7 demo_store 3 0)) = sCached demo_store"
proof -
  have 1: "objects demo_store 3 = Some \<lparr>mUUID = 1, mDeleted = False, mSelf = None\<rparr>"
    by (simp add: demo_store_def)
  have 2: "\<not> mDeleted \<lparr>mUUID = 1, mDeleted = False, mSelf = None\<rparr>" by simp
  have 3: "(1 :: UUID) = (if (0 :: UUID) \<noteq> 0 then 0 else mUUID \<lparr>mUUID = 1, mDeleted = False, mSelf = None\<rparr>)"
    by simp
  have 4: "(1 :: UUID) \<noteq> 0" by simp
  have 5: "sCached demo_store 1 = Some 1" by (simp add: demo_store_def)
  have 6: "(1 :: nat) \<noteq> 3" by simp
  have 7: "1 \<in> dom (objects demo_store)" by (simp add: demo_store_def)
  show ?thesis
    using C5_duplicate_refused[OF 1 2 3 4 5 6 7, of 7] 5 by simp
qed

section \<open>The script registry\<close>







section \<open>Spawns of a zone partial\<close>

lemma extends_refl [simp]: "extends sp sp"
  by (simp add: extends_def)

lemma extends_trans: "extends a b \<Longrightarrow> extends b c \<Longrightarrow> extends a c"
  by (auto simp: extends_def intro: prefix_order.trans)

lemma step_extends:
  assumes "ApplyZonePartial_spawn sPair (zone, store) = (zone', store')" "store x = Some sp"
  shows "\<exists>sp'. store' x = Some sp' \<and> extends sp sp'"
  using assms
  by (auto simp: ApplyZonePartial_spawn_def extends_def split: option.splits if_splits)

lemma step_dom:
  assumes "ApplyZonePartial_spawn sPair (zone, store) = (zone', store')"
  shows "store' x = None \<longleftrightarrow> store x = None"
  using assms
  by (auto simp: ApplyZonePartial_spawn_def split: option.splits if_splits)

lemma step_other_key:
  assumes "ApplyZonePartial_spawn sPair (zone, store) = (zone', store')" "k \<noteq> fst sPair"
  shows "Spawns zone' k = Spawns zone k"
  using assms
  by (auto simp: ApplyZonePartial_spawn_def split: option.splits if_splits)

lemma fold_extends:
  assumes "fold ApplyZonePartial_spawn entries (zone, store) = (zone', store')" "store x = Some sp"
  shows "\<exists>sp'. store' x = Some sp' \<and> extends sp sp'"
  using assms
proof (induction entries arbitrary: zone store sp)
  case Nil
  then show ?case by auto
next
  case (Cons e entries)
  obtain z1 s1 where st: "ApplyZonePartial_spawn e (zone, store) = (z1, s1)"
    by (cases "ApplyZonePartial_spawn e (zone, store)")
  obtain sp1 where sp1: "s1 x = Some sp1" "extends sp sp1"
    using step_extends[OF st Cons.prems(2)] by blast
  have "fold ApplyZonePartial_spawn entries (z1, s1) = (zone', store')"
    using Cons.prems(1) st by simp
  from Cons.IH[OF this sp1(1)] obtain sp' where "store' x = Some sp'" "extends sp1 sp'" by blast
  then show ?case using sp1(2) extends_trans by blast
qed

lemma fold_other_key:
  assumes "fold ApplyZonePartial_spawn entries (zone, store) = (zone', store')"
    "k \<notin> fst ` set entries"
  shows "Spawns zone' k = Spawns zone k"
  using assms
proof (induction entries arbitrary: zone store)
  case Nil
  then show ?case by auto
next
  case (Cons e entries)
  obtain z1 s1 where st: "ApplyZonePartial_spawn e (zone, store) = (z1, s1)"
    by (cases "ApplyZonePartial_spawn e (zone, store)")
  have "fold ApplyZonePartial_spawn entries (z1, s1) = (zone', store')"
    using Cons.prems(1) st by simp
  then have "Spawns zone' k = Spawns z1 k" using Cons.IH Cons.prems(2) by simp
  moreover have "Spawns z1 k = Spawns zone k" using step_other_key[OF st] Cons.prems(2) by simp
  ultimately show ?case by simp
qed

lemma step_untouched:
  assumes "ApplyZonePartial_spawn sPair (zone, store) = (zone', store')"
    "Spawns zone (fst sPair) \<noteq> Some x"
  shows "store' x = store x"
  using assms
  by (auto simp: ApplyZonePartial_spawn_def split: option.splits if_splits)

lemma fold_untouched:
  assumes "fold ApplyZonePartial_spawn entries (zone, store) = (zone', store')"
    "distinct (map fst entries)" "\<forall>k' \<in> fst ` set entries. Spawns zone k' \<noteq> Some x"
  shows "store' x = store x"
  using assms
proof (induction entries arbitrary: zone store)
  case Nil
  then show ?case by auto
next
  case (Cons e entries)
  obtain z1 s1 where st: "ApplyZonePartial_spawn e (zone, store) = (z1, s1)"
    by (cases "ApplyZonePartial_spawn e (zone, store)")
  have f: "fold ApplyZonePartial_spawn entries (z1, s1) = (zone', store')"
    using Cons.prems(1) st by simp
  have "\<forall>k' \<in> fst ` set entries. Spawns z1 k' \<noteq> Some x"
  proof
    fix k' assume k': "k' \<in> fst ` set entries"
    then have "k' \<noteq> fst e" using Cons.prems(2) by (auto simp: image_iff)
    then have "Spawns z1 k' = Spawns zone k'" using step_other_key[OF st] by simp
    then show "Spawns z1 k' \<noteq> Some x" using Cons.prems(3) k' by auto
  qed
  then have "store' x = s1 x" using Cons.IH[OF f] Cons.prems(2) by simp
  moreover have "s1 x = store x" using step_untouched[OF st] Cons.prems(3) by simp
  ultimately show ?case by simp
qed

text \<open>
  C7. When the loop over the spawns of a partial reaches the entry \<open>(k, a)\<close>:
  with a non-zero enemy type the zone afterwards has \<open>a\<close> under \<open>k\<close>; with
  enemy type zero the zone has under \<open>k\<close> what it had, and an existing spawn
  gets the drops, drop set IDs, gifts and gift set IDs of \<open>a\<close> appended to
  its own, after which its lists only grow. When the existing spawn and \<open>a\<close>
  are not shared with other keys of the zone, the existing spawn ends with
  exactly its lists followed by those of \<open>a\<close>.
\<close>

theorem C7_partial_spawns:
  assumes dist: "distinct (map fst (PartialSpawns partial))"
    and ent: "PartialSpawns partial = pre @ (k, a) # post"
    and before: "fold ApplyZonePartial_spawn pre (zone, store) = (zone1, store1)"
    and live: "store1 a = Some spawn"
    and res: "ApplyZonePartial_spawns zone partial store = (zone', store')"
  shows "(EnemyType spawn \<noteq> 0 \<longrightarrow> Spawns zone' k = Some a) \<and>
         (EnemyType spawn = 0 \<longrightarrow> Spawns zone' k = Spawns zone k) \<and>
         (\<forall>e ex. EnemyType spawn = 0 \<and> Spawns zone k = Some e \<and> store1 e = Some ex \<longrightarrow>
            (\<exists>ex1 ex'. snd (ApplyZonePartial_spawn (k, a) (zone1, store1)) e = Some ex1 \<and>
                       appended ex spawn ex1 \<and> store' e = Some ex' \<and> extends ex1 ex')) \<and>
         (\<forall>e ex. EnemyType spawn = 0 \<and> Spawns zone k = Some e \<and> store e = Some ex \<and>
                  unshared zone k e a \<longrightarrow>
            store a = Some spawn \<and> (\<exists>ex'. store' e = Some ex' \<and> appended ex spawn ex'))"
proof -
  obtain zone2 store2 where st: "ApplyZonePartial_spawn (k, a) (zone1, store1) = (zone2, store2)"
    by (cases "ApplyZonePartial_spawn (k, a) (zone1, store1)")
  have after: "fold ApplyZonePartial_spawn post (zone2, store2) = (zone', store')"
    using res before st by (simp add: ApplyZonePartial_spawns_def ent)
  have kpre: "k \<notin> fst ` set pre" and kpost: "k \<notin> fst ` set post"
    and dpre: "distinct (map fst pre)" and dpost: "distinct (map fst post)"
    and disj: "fst ` set pre \<inter> fst ` set post = {}"
    using dist by (auto simp: ent)
  have z1: "Spawns zone1 k = Spawns zone k" using fold_other_key[OF before kpre] .
  have z': "Spawns zone' k = Spawns zone2 k" using fold_other_key[OF after kpost] .
  have c1: "EnemyType spawn \<noteq> 0 \<longrightarrow> Spawns zone' k = Some a"
    using st live z' by (auto simp: ApplyZonePartial_spawn_def)
  have c2: "EnemyType spawn = 0 \<longrightarrow> Spawns zone' k = Spawns zone k"
    using st live z' z1 by (auto simp: ApplyZonePartial_spawn_def split: option.splits)
  have step0: "store2 e = Some (ex\<lparr>DropSetIDs := DropSetIDs ex @ DropSetIDs spawn,
                               Drops := Drops ex @ Drops spawn,
                               GiftSetIDs := GiftSetIDs ex @ GiftSetIDs spawn,
                               Gifts := Gifts ex @ Gifts spawn\<rparr>)"
    if "EnemyType spawn = 0" "Spawns zone k = Some e" "store1 e = Some ex" for e ex
    using st live z1 that by (auto simp: ApplyZonePartial_spawn_def)
  have c3: "\<exists>ex1 ex'. snd (ApplyZonePartial_spawn (k, a) (zone1, store1)) e = Some ex1 \<and>
                       appended ex spawn ex1 \<and> store' e = Some ex' \<and> extends ex1 ex'"
    if h: "EnemyType spawn = 0 \<and> Spawns zone k = Some e \<and> store1 e = Some ex" for e ex
  proof -
    define ex1 where "ex1 = ex\<lparr>DropSetIDs := DropSetIDs ex @ DropSetIDs spawn,
                               Drops := Drops ex @ Drops spawn,
                               GiftSetIDs := GiftSetIDs ex @ GiftSetIDs spawn,
                               Gifts := Gifts ex @ Gifts spawn\<rparr>"
    have s2: "store2 e = Some ex1" using step0 h by (simp add: ex1_def)
    obtain ex' where "store' e = Some ex'" "extends ex1 ex'"
      using fold_extends[OF after s2] by blast
    moreover have "appended ex spawn ex1" by (simp add: appended_def ex1_def)
    ultimately show ?thesis using s2 st by auto
  qed
  have c4: "store a = Some spawn \<and> (\<exists>ex'. store' e = Some ex' \<and> appended ex spawn ex')"
    if h: "EnemyType spawn = 0 \<and> Spawns zone k = Some e \<and> store e = Some ex \<and> unshared zone k e a"
    for e ex
  proof -
    have ne: "\<forall>k'. k' \<noteq> k \<longrightarrow> Spawns zone k' \<noteq> Some e" and na: "\<forall>k'. Spawns zone k' \<noteq> Some a"
      using h by (auto simp: unshared_def)
    have a1: "store1 a = store a"
      using fold_untouched[OF before dpre] na by blast
    have "\<forall>k' \<in> fst ` set pre. Spawns zone k' \<noteq> Some e"
      using ne kpre by metis
    then have e1: "store1 e = store e"
      by (rule fold_untouched[OF before dpre])
    define ex1 where "ex1 = ex\<lparr>DropSetIDs := DropSetIDs ex @ DropSetIDs spawn,
                               Drops := Drops ex @ Drops spawn,
                               GiftSetIDs := GiftSetIDs ex @ GiftSetIDs spawn,
                               Gifts := Gifts ex @ Gifts spawn\<rparr>"
    have s2: "store2 e = Some ex1" using step0[of e ex] h e1 by (simp add: ex1_def)
    have "\<forall>k' \<in> fst ` set post. Spawns zone2 k' \<noteq> Some e"
    proof
      fix k' assume k': "k' \<in> fst ` set post"
      then have nk: "k' \<noteq> k" and np: "k' \<notin> fst ` set pre" using kpost disj by auto
      have "Spawns zone2 k' = Spawns zone1 k'" using step_other_key[OF st] nk by simp
      also have "\<dots> = Spawns zone k'" using fold_other_key[OF before np] .
      finally show "Spawns zone2 k' \<noteq> Some e" using ne nk by simp
    qed
    then have "store' e = store2 e" using fold_untouched[OF after dpost] by blast
    moreover have "appended ex spawn ex1" by (simp add: appended_def ex1_def)
    ultimately show ?thesis using s2 a1 live by auto
  qed
  show ?thesis using c1 c2 c3 c4 by blast
qed

theorem C7_partial_spawns_witness:
  "Spawns (fst (ApplyZonePartial_spawns demo_zone demo_partial demo_spawns)) 2 = Some 21 \<and>
   Spawns (fst (ApplyZonePartial_spawns demo_zone demo_partial demo_spawns)) 1 = Some 10 \<and>
   (\<exists>ex'. snd (ApplyZonePartial_spawns demo_zone demo_partial demo_spawns) 10 = Some ex' \<and>
      appended \<lparr>EnemyType = 5, Drops = [100], DropSetIDs = [1], Gifts = [], GiftSetIDs = []\<rparr>
        \<lparr>EnemyType = 0, Drops = [200], DropSetIDs = [2], Gifts = [300], GiftSetIDs = [3]\<rparr> ex')"
proof -
  let ?r = "ApplyZonePartial_spawns demo_zone demo_partial demo_spawns"
  let ?s20 = "\<lparr>EnemyType = 0, Drops = [200], DropSetIDs = [2], Gifts = [300], GiftSetIDs = [3]\<rparr>"
  let ?s21 = "\<lparr>EnemyType = 9, Drops = [], DropSetIDs = [], Gifts = [], GiftSetIDs = []\<rparr>"
  let ?s10 = "\<lparr>EnemyType = 5, Drops = [100], DropSetIDs = [1], Gifts = [], GiftSetIDs = []\<rparr>"
  let ?mid = "fold ApplyZonePartial_spawn [(1, 20)] (demo_zone, demo_spawns)"
  have d: "distinct (map fst (PartialSpawns demo_partial))" by (simp add: demo_partial_def)
  have e1: "PartialSpawns demo_partial = [] @ (1, 20) # [(2, 21)]" by (simp add: demo_partial_def)
  have e2: "PartialSpawns demo_partial = [(1, 20)] @ (2, 21) # []" by (simp add: demo_partial_def)
  have b1: "fold ApplyZonePartial_spawn [] (demo_zone, demo_spawns) = (demo_zone, demo_spawns)" by simp
  have b2: "?mid = (fst ?mid, snd ?mid)" by simp
  have l1: "demo_spawns 20 = Some ?s20" by (simp add: demo_spawns_def)
  have l2: "snd ?mid 21 = Some ?s21"
    by (simp add: ApplyZonePartial_spawn_def demo_spawns_def demo_zone_def)
  have r: "?r = (fst ?r, snd ?r)" by simp
  have z1: "Spawns demo_zone 1 = Some 10" by (simp add: demo_zone_def)
  have s10: "demo_spawns 10 = Some ?s10" by (simp add: demo_spawns_def)
  have u: "unshared demo_zone 1 10 20" by (simp add: unshared_def demo_zone_def)
  have t: "EnemyType ?s20 = 0" "EnemyType ?s21 \<noteq> 0" by simp_all
  from C7_partial_spawns[OF d e2 b2 l2 r] t(2)
  have 1: "Spawns (fst ?r) 2 = Some 21" by blast
  from C7_partial_spawns[OF d e1 b1 l1 r] t(1) z1 s10 u
  have 2: "Spawns (fst ?r) 1 = Spawns demo_zone 1"
    and 3: "\<exists>ex'. snd ?r 10 = Some ex' \<and> appended ?s10 ?s20 ex'"
    by blast+
  show ?thesis using 1 2 3 z1 by simp
qed

section \<open>Search paths\<close>

lemma AddSearchPaths_loop_mounts:
  assumes "distinct paths" "\<forall>p \<in> set paths. can_mount p" "set paths \<inter> set (searchPath fs) = {}"
  shows "AddSearchPaths_loop append_default can_mount fs paths =
           (True, fs\<lparr>searchPath := (if append_default then searchPath fs @ paths
                                     else rev paths @ searchPath fs)\<rparr>)"
  using assms
proof (induction paths arbitrary: fs)
  case Nil
  then show ?case by simp
next
  case (Cons p paths)
  define fs1 where "fs1 = fs\<lparr>searchPath := (if append_default then searchPath fs @ [p]
                                               else p # searchPath fs)\<rparr>"
  have m: "AddSearchPath can_mount fs p append_default = (True, fs1)"
    using Cons.prems by (auto simp: AddSearchPath_def PHYSFS_mount_def fs1_def)
  have "set paths \<inter> set (searchPath fs1) = {}"
    using Cons.prems by (auto simp: fs1_def)
  then have "AddSearchPaths_loop append_default can_mount fs1 paths =
           (True, fs1\<lparr>searchPath := (if append_default then searchPath fs1 @ paths
                                      else rev paths @ searchPath fs1)\<rparr>)"
    using Cons.IH[of fs1] Cons.prems by simp
  then show ?case using m by (simp add: fs1_def)
qed

text \<open>
  C8, as stated, fails with the default the comments describe: of two
  directories that both hold a file, the one listed last is read.
\<close>

theorem C8_last_listed_wins_counterexample:
  "\<not> lookup_in_listed_order False [''base'', ''patch''] demo_has ''zones.xml''"
  by (simp add: lookup_in_listed_order_def resolve_def AddSearchPaths_def AddSearchPath_def
        PHYSFS_mount_def PHYSFS_setWriteDir_def demo_has_def)

text \<open>
  C8, amended. For every list of distinct directories that can be mounted,
  added to a store that has none of them mounted, with a last directory that
  can be written to: the directories are put in front of the search path one
  after the other when \<open>AddSearchPath\<close> prepends by default (they are
  searched from the last listed to the first listed), and at its end, in the
  order listed, when it appends by default; the last listed directory is the
  write directory.
\<close>

theorem C8_search_order:
  assumes "paths \<noteq> []" "distinct paths" "\<forall>p \<in> set paths. can_mount p"
    "set paths \<inter> set (searchPath fs) = {}" "can_write (last paths)"
  shows "AddSearchPaths append_default can_mount can_write fs paths =
           (True, fs\<lparr>searchPath := (if append_default then searchPath fs @ paths
                                     else rev paths @ searchPath fs),
                     writeDir := Some (last paths)\<rparr>) \<and>
         (\<not> append_default \<and> searchPath fs = [] \<longrightarrow>
            resolve (snd (AddSearchPaths append_default can_mount can_write fs paths)) has file
              = find (\<lambda>dir. has dir file) (rev paths))"
proof -
  have "AddSearchPaths append_default can_mount can_write fs paths =
           (True, fs\<lparr>searchPath := (if append_default then searchPath fs @ paths
                                     else rev paths @ searchPath fs),
                     writeDir := Some (last paths)\<rparr>)"
    using assms AddSearchPaths_loop_mounts[OF assms(2,3,4), of append_default]
    by (simp add: AddSearchPaths_def PHYSFS_setWriteDir_def Let_def)
  then show ?thesis by (auto simp: resolve_def)
qed

theorem C8_search_order_witness:
  "AddSearchPaths False (\<lambda>dir. True) (\<lambda>dir. True) \<lparr>searchPath = [], writeDir = None\<rparr>
       [''base'', ''patch''] =
     (True, \<lparr>searchPath = [''patch'', ''base''], writeDir = Some ''patch''\<rparr>) \<and>
   resolve (snd (AddSearchPaths False (\<lambda>dir. True) (\<lambda>dir. True) \<lparr>searchPath = [], writeDir = None\<rparr>
       [''base'', ''patch''])) demo_has ''zones.xml'' = Some ''patch''"
proof -
  have 1: "[''base'', ''patch''] \<noteq> []" by simp
  have 2: "distinct [''base'', ''patch'']" by simp
  have 3: "\<forall>p \<in> set [''base'', ''patch'']. (\<lambda>dir. True) p" by simp
  have 4: "set [''base'', ''patch''] \<inter> set (searchPath \<lparr>searchPath = [], writeDir = None\<rparr>) = {}"
    by simp
  have 5: "(\<lambda>dir. True) (last [''base'', ''patch''])" by simp
  show ?thesis
    using C8_search_order[OF 1 2 3 4 5, of False demo_has "''zones.xml''"]
    by (simp add: resolve_def demo_has_def)
qed

section \<open>Explicit updates\<close>




lemma map_fst_zip_where: "map fst (zip xs [Suc (length xs) ..< Suc (2 * length xs)]) = xs"
proof -
  have "length xs = length [Suc (length xs) ..< Suc (2 * length xs)]"
    by (simp only: length_upt diff_Suc_Suc mult_2 add_diff_cancel_left')
  then show ?thesis by (rule map_fst_zip)
qed








text \<open>
  C10. The WHERE clause of an explicit update names the changed columns and
  no other. An update with a changed column that has no expected value fails
  without a call to the connection. The expected values of columns that are
  not changed do not matter: two updates whose expected values agree on the
  changed columns behave the same.
\<close>

theorem C10_where_clause_from_changed_columns:
  "map fst (sql_where (explicit_update_sql update)) = map fst (GetChanges update) \<and>
   ((\<exists>column \<in> fst ` set (GetChanges update). map_of (GetExpectedValues update) column = None) \<longrightarrow>
      ProcessExplicitUpdate conn log update = (False, log)) \<and>
   ((\<forall>column \<in> fst ` set (GetChanges update).
        map_of expected column = map_of (GetExpectedValues update) column) \<longrightarrow>
      ProcessExplicitUpdate conn log (update\<lparr>GetExpectedValues := expected\<rparr>) =
        ProcessExplicitUpdate conn log update)"
proof (intro conjI impI)
  show "map fst (sql_where (explicit_update_sql update)) = map fst (GetChanges update)"
    unfolding explicit_update_sql_def Let_def
    by (simp only: UpdateStatement.simps map_fst_zip_where)
next
  assume "\<exists>column \<in> fst ` set (GetChanges update). map_of (GetExpectedValues update) column = None"
  then show "ProcessExplicitUpdate conn log update = (False, log)"
    by (auto simp: ProcessExplicitUpdate_def Let_def)
next
  assume a: "\<forall>column \<in> fst ` set (GetChanges update).
        map_of expected column = map_of (GetExpectedValues update) column"
  then have 1: "(\<exists>cPair \<in> set (GetChanges update). map_of expected (fst cPair) = None) \<longleftrightarrow>
      (\<exists>cPair \<in> set (GetChanges update). map_of (GetExpectedValues update) (fst cPair) = None)"
    by auto
  have 2: "map (\<lambda>cPair. the (map_of expected (fst cPair))) (GetChanges update) =
      map (\<lambda>cPair. the (map_of (GetExpectedValues update) (fst cPair))) (GetChanges update)"
    using a by (intro map_cong) auto
  have 3: "explicit_update_sql (update\<lparr>GetExpectedValues := expected\<rparr>) = explicit_update_sql update"
    by (simp add: explicit_update_sql_def)
  have g: "GetChanges (update\<lparr>GetExpectedValues := expected\<rparr>) = GetChanges update"
    "GetExpectedValues (update\<lparr>GetExpectedValues := expected\<rparr>) = expected"
    "GetRecord (update\<lparr>GetExpectedValues := expected\<rparr>) = GetRecord update"
    by simp_all
  show "ProcessExplicitUpdate conn log (update\<lparr>GetExpectedValues := expected\<rparr>) =
        ProcessExplicitUpdate conn log update"
    unfolding ProcessExplicitUpdate_def Let_def 3 g 1 2 by (rule refl)
qed




theorem C10_where_clause_from_changed_columns_witness:
  "ProcessExplicitUpdate demo_connection [] demo_unexpected_update = (False, []) \<and>
   ProcessExplicitUpdate demo_connection []
       (demo_update\<lparr>GetExpectedValues := [(''Mp'', DatabaseBindInt 7), (''Hp'', DatabaseBindInt 100)]\<rparr>) =
     ProcessExplicitUpdate demo_connection [] demo_update"
proof -
  have 1: "\<exists>column \<in> fst ` set (GetChanges demo_unexpected_update).
             map_of (GetExpectedValues demo_unexpected_update) column = None"
    by (simp add: demo_unexpected_update_def demo_update_def)
  have 2: "\<forall>column \<in> fst ` set (GetChanges demo_update).
        map_of [(''Mp'', DatabaseBindInt 7), (''Hp'', DatabaseBindInt 100)] column =
        map_of (GetExpectedValues demo_update) column"
    by (simp add: demo_update_def)
  show ?thesis
    using C10_where_clause_from_changed_columns[where update = demo_unexpected_update
        and conn = demo_connection and log = "[]"] 1
      C10_where_clause_from_changed_columns[where update = demo_update
        and conn = demo_connection and log = "[]"
        and expected = "[(''Mp'', DatabaseBindInt 7), (''Hp'', DatabaseBindInt 100)]"] 2
    by blast
qed

end
